theory Spec2Isabelle
  imports Complex_Main
begin

section \<open>The wheel server: a shallow embedding of server.js\<close>

text \<open>
  The server keeps every wheel in one process-wide object \<^verbatim>\<open>wheels\<close> and answers four
  routes from one function, \<^verbatim>\<open>handleApi\<close>.  The embedding below follows that function
  branch by branch.  What the JavaScript runtime supplies from outside (random numbers,
  the clock, two built-in conversions) is gathered in the record \<open>runtime\<close>; the registry
  is passed in and returned; a response is a value of type \<open>outcome\<close>.

  Conventions.
  \<^item> A string is a list of code units below 256.
  \<^item> A JavaScript number is \<open>NaN\<close>, an infinity, or a finite double, written as the real
    number it denotes; the two zeros are one value, which the comparisons of the server do
    not tell apart.  Addition and multiplication round their exact result to the nearest
    double, ties to the even significand, and overflow to an infinity.
  \<^item> Each request is one step: node runs the route test and the \<^verbatim>\<open>'end'\<close> callback of a
    request without another callback in between changing the wheel it looked up, since no
    route removes or replaces a stored wheel.
  \<^item> The byte limit on request bodies and the static file server are outside the model.
\<close>

subsection \<open>JavaScript values\<close>

datatype jsnum = NaN | PosInfinity | NegInfinity | Fin real

datatype jsval =
    JUndefined
  | JNull
  | JBool bool
  | JNum jsnum
  | JStr string
  | JArr "jsval list"
  | JObj "(string \<times> jsval) list"

text \<open>The values for which \<^verbatim>\<open>!v\<close> is false.\<close>

fun truthy :: "jsval \<Rightarrow> bool" where
  "truthy JUndefined = False"
| "truthy JNull = False"
| "truthy (JBool b) = b"
| "truthy (JNum NaN) = False"
| "truthy (JNum (Fin x)) = (x \<noteq> 0)"
| "truthy (JNum PosInfinity) = True"
| "truthy (JNum NegInfinity) = True"
| "truthy (JStr s) = (s \<noteq> [])"
| "truthy (JArr xs) = True"
| "truthy (JObj kvs) = True"

text \<open>
  \<^verbatim>\<open>v.k\<close> for a value \<open>v\<close> that came out of \<^verbatim>\<open>JSON.parse\<close>.  Reading a property of
  \<^verbatim>\<open>null\<close> or \<^verbatim>\<open>undefined\<close> throws a TypeError (\<open>None\<close>).  The server reads only the
  properties options, label, weight, name and phone; no built-in prototype defines one
  of them, so a value without such an own property yields \<^verbatim>\<open>undefined\<close>.  An object
  is the list of its own properties, one per key.
\<close>

fun get_prop :: "jsval \<Rightarrow> string \<Rightarrow> jsval option" where
  "get_prop JUndefined k = None"
| "get_prop JNull k = None"
| "get_prop (JObj kvs) k = Some (case map_of kvs k of Some v \<Rightarrow> v | None \<Rightarrow> JUndefined)"
| "get_prop (JBool b) k = Some JUndefined"
| "get_prop (JNum n) k = Some JUndefined"
| "get_prop (JStr s) k = Some JUndefined"
| "get_prop (JArr xs) k = Some JUndefined"

subsection \<open>Numbers\<close>

text \<open>
  Rounding to binary64.  \<open>nearest_even q\<close> is the integer nearest to \<open>q\<close>, the even one
  of the two when \<open>q\<close> lies half way.  For \<open>a > 0\<close>, \<open>binade a\<close> is the exponent of the
  doubles around \<open>a\<close> (\<open>-1022\<close> for the subnormal range) and \<open>ulp a\<close> their spacing, 52
  binary places below; \<open>nearest a\<close> is the multiple of that spacing nearest to \<open>a\<close>.
\<close>

definition nearest_even :: "real \<Rightarrow> int" where
  "nearest_even q =
     (if q - of_int \<lfloor>q\<rfloor> < 1 / 2 then \<lfloor>q\<rfloor>
      else if 1 / 2 < q - of_int \<lfloor>q\<rfloor> then \<lfloor>q\<rfloor> + 1
      else if even \<lfloor>q\<rfloor> then \<lfloor>q\<rfloor> else \<lfloor>q\<rfloor> + 1)"

definition binade :: "real \<Rightarrow> int" where
  "binade a = max \<lfloor>log 2 a\<rfloor> (- 1022)"

definition ulp :: "real \<Rightarrow> real" where
  "ulp a = 2 powr (of_int (binade a) - 52)"

definition nearest :: "real \<Rightarrow> real" where
  "nearest a = of_int (nearest_even (a / ulp a)) * ulp a"

text \<open>
  The double that an exact result \<open>x\<close> is rounded to.  A result that rounds to \<open>2 ^ 1024\<close>
  or beyond is an infinity; the largest double is \<open>2 ^ 1024 - 2 ^ 971\<close>.
\<close>

definition to_double :: "real \<Rightarrow> jsnum" where
  "to_double x =
     (if x = 0 then Fin 0
      else if 0 < x then (if 2 ^ 1024 \<le> nearest x then PosInfinity else Fin (nearest x))
      else (if 2 ^ 1024 \<le> nearest (- x) then NegInfinity else Fin (- nearest (- x))))"

text \<open>The reals that are doubles.\<close>

definition is_double :: "real \<Rightarrow> bool" where
  "is_double x = (to_double x = Fin x)"

text \<open>\<^verbatim>\<open>a + b\<close>, \<^verbatim>\<open>a * b\<close> and \<^verbatim>\<open>a < b\<close> on numbers.\<close>

fun js_add :: "jsnum \<Rightarrow> jsnum \<Rightarrow> jsnum" where
  "js_add (Fin x) (Fin y) = to_double (x + y)"
| "js_add NaN b = NaN"
| "js_add a NaN = NaN"
| "js_add PosInfinity NegInfinity = NaN"
| "js_add NegInfinity PosInfinity = NaN"
| "js_add PosInfinity b = PosInfinity"
| "js_add a PosInfinity = PosInfinity"
| "js_add NegInfinity b = NegInfinity"
| "js_add a NegInfinity = NegInfinity"

fun js_mul :: "jsnum \<Rightarrow> jsnum \<Rightarrow> jsnum" where
  "js_mul (Fin x) (Fin y) = to_double (x * y)"
| "js_mul NaN b = NaN"
| "js_mul a NaN = NaN"
| "js_mul (Fin x) PosInfinity = (if x = 0 then NaN else if 0 < x then PosInfinity else NegInfinity)"
| "js_mul (Fin x) NegInfinity = (if x = 0 then NaN else if 0 < x then NegInfinity else PosInfinity)"
| "js_mul PosInfinity (Fin y) = (if y = 0 then NaN else if 0 < y then PosInfinity else NegInfinity)"
| "js_mul NegInfinity (Fin y) = (if y = 0 then NaN else if 0 < y then NegInfinity else PosInfinity)"
| "js_mul PosInfinity PosInfinity = PosInfinity"
| "js_mul NegInfinity NegInfinity = PosInfinity"
| "js_mul PosInfinity NegInfinity = NegInfinity"
| "js_mul NegInfinity PosInfinity = NegInfinity"

fun js_less :: "jsnum \<Rightarrow> jsnum \<Rightarrow> bool" where
  "js_less (Fin x) (Fin y) = (x < y)"
| "js_less NaN b = False"
| "js_less a NaN = False"
| "js_less a NegInfinity = False"
| "js_less NegInfinity b = True"
| "js_less PosInfinity b = False"
| "js_less a PosInfinity = True"

subsection \<open>What the runtime supplies\<close>

text \<open>
  \<open>random_digits rt k\<close> are the base-36 digits after the point of the value that the
  \<open>k\<close>-th call of \<^verbatim>\<open>Math.random()\<close> inside \<^verbatim>\<open>generateId\<close> returns during this request
  (no digits for the value 0).  \<open>Math_random rt\<close> is the draw made by a spin, a double
  with \<open>0 \<le> Math_random rt < 1\<close>, and \<open>Date_now rt\<close> the clock.  \<open>StringToNumber\<close> and \<open>ArrayToNumber\<close> are the built-in
  conversions of a string and of an array to a number; the latter may throw (\<open>None\<close>).
\<close>

record runtime =
  random_digits :: "nat \<Rightarrow> nat list"
  Math_random :: real
  Date_now :: nat
  StringToNumber :: "string \<Rightarrow> jsnum"
  ArrayToNumber :: "jsval list \<Rightarrow> jsnum option"

text \<open>
  \<^verbatim>\<open>Number(v)\<close>.  A parsed object has no callable \<^verbatim>\<open>valueOf\<close> or \<^verbatim>\<open>toString\<close> of its own:
  with an own \<^verbatim>\<open>toString\<close> property the conversion throws a TypeError (\<open>None\<close>),
  without one it goes through \<^verbatim>\<open>"[object Object]"\<close> to \<open>NaN\<close>.
\<close>

fun Number_js :: "runtime \<Rightarrow> jsval \<Rightarrow> jsnum option" where
  "Number_js rt JUndefined = Some NaN"
| "Number_js rt JNull = Some (Fin 0)"
| "Number_js rt (JBool b) = Some (Fin (if b then 1 else 0))"
| "Number_js rt (JNum n) = Some n"
| "Number_js rt (JStr s) = Some (StringToNumber rt s)"
| "Number_js rt (JArr xs) = ArrayToNumber rt xs"
| "Number_js rt (JObj kvs) = (case map_of kvs ''toString'' of None \<Rightarrow> Some NaN | Some v \<Rightarrow> None)"

subsection \<open>Strings\<close>

text \<open>The white space and line terminators that \<^verbatim>\<open>trim\<close> removes, among code units below 256.\<close>

definition is_space :: "char \<Rightarrow> bool" where
  "is_space c = (c \<in> set [CHR 0x09, CHR 0x0A, CHR 0x0B, CHR 0x0C, CHR 0x0D, CHR 0x20, CHR 0xA0])"

definition trim :: "string \<Rightarrow> string" where
  "trim s = rev (dropWhile is_space (rev (dropWhile is_space s)))"

text \<open>\<^verbatim>\<open>typeof v === 'string' ? v.trim() : ''\<close>\<close>

fun trimmed_string :: "jsval \<Rightarrow> string" where
  "trimmed_string (JStr s) = trim s"
| "trimmed_string v = []"

definition substring :: "nat \<Rightarrow> nat \<Rightarrow> string \<Rightarrow> string" where
  "substring a b s = take (b - a) (drop a s)"

subsection \<open>Data\<close>

record wheel_option =
  label :: string
  weight :: real

record spin_result =
  name :: string
  phone :: string
  result :: string
  timestamp :: nat

record wheel =
  wheel_id :: string
  options :: "wheel_option list"
  results :: "spin_result list"

text \<open>The own properties of the object \<^verbatim>\<open>wheels\<close>.\<close>

type_synonym registry = "string \<rightharpoonup> wheel"

text \<open>
  \<^verbatim>\<open>wheels\<close> is created by \<^verbatim>\<open>{}\<close>, so \<^verbatim>\<open>wheels[k]\<close> also finds the properties of
  \<^verbatim>\<open>Object.prototype\<close>: functions, and for \<^verbatim>\<open>__proto__\<close> the prototype object itself.
  All of them are truthy and none has a property id, options or results.
\<close>

definition Object_prototype :: "string list" where
  "Object_prototype =
    [''constructor'', ''__defineGetter__'', ''__defineSetter__'', ''hasOwnProperty'',
     ''__lookupGetter__'', ''__lookupSetter__'', ''isPrototypeOf'', ''propertyIsEnumerable'',
     ''toString'', ''valueOf'', ''__proto__'', ''toLocaleString'']"

datatype property = Own wheel | Inherited | Missing

definition wheels_get :: "registry \<Rightarrow> string \<Rightarrow> property" where
  "wheels_get wheels k =
     (case wheels k of
        Some w \<Rightarrow> Own w
      | None \<Rightarrow> if k \<in> set Object_prototype then Inherited else Missing)"

subsection \<open>Responses\<close>

text \<open>
  The body handed to \<^verbatim>\<open>sendJson\<close>, one constructor per shape.  \<open>EmptyObject\<close> is the
  text \<^verbatim>\<open>{}\<close>, which \<^verbatim>\<open>JSON.stringify\<close> produces when every property is \<^verbatim>\<open>undefined\<close>.
\<close>

datatype body =
    ErrorBody string
  | CreatedBody string string string
  | WheelBody string "wheel_option list"
  | EmptyObject
  | ResultsBody string "spin_result list"
  | SpinBody string

text \<open>
  \<open>NotHandled\<close>: \<^verbatim>\<open>handleApi\<close> returns false and the request goes to the static files.
  \<open>Uncaught\<close>: a TypeError leaves the \<^verbatim>\<open>'end'\<close> callback; no response is sent and node
  ends the process.  The model returns the registry as it was at the throw; no route
  throws after it has changed the registry.
\<close>

datatype outcome = Respond nat body | NotHandled | Uncaught

text \<open>
  What the server reads of a request: \<^verbatim>\<open>req.method\<close>, the path name of the URL, and the
  value of \<^verbatim>\<open>JSON.parse(body)\<close> (\<open>None\<close> when the parser throws).
\<close>

record request =
  http_method :: string
  pathname :: string
  parsed_body :: "jsval option"

subsection \<open>generateId and the retry loop\<close>

definition digit36 :: "nat \<Rightarrow> char" where
  "digit36 d = ''0123456789abcdefghijklmnopqrstuvwxyz'' ! (d mod 36)"

text \<open>\<^verbatim>\<open>x.toString(36)\<close> for \<open>0 \<le> x < 1\<close> with the fraction digits \<open>ds\<close>.\<close>

definition toString36 :: "nat list \<Rightarrow> string" where
  "toString36 ds = (if ds = [] then ''0'' else ''0.'' @ map digit36 ds)"

definition generateId :: "nat list \<Rightarrow> string" where
  "generateId ds = substring 2 10 (toString36 ds)"

text \<open>
  \<^verbatim>\<open>for (let i = 0; i < 5; i++) { id = generateId(); if (!wheels[id]) break; }\<close>
  entered at \<open>i\<close>; the value is the last id generated.  The body runs at least once,
  so \<^verbatim>\<open>id\<close> is never left undefined.
\<close>

function allocate :: "registry \<Rightarrow> (nat \<Rightarrow> nat list) \<Rightarrow> nat \<Rightarrow> string" where
  "allocate wheels draws i =
     (let ident = generateId (draws i) in
      if wheels_get wheels ident = Missing then ident
      else if i + 1 < 5 then allocate wheels draws (i + 1)
      else ident)"
  by pat_completeness auto
termination
  by (relation "measure (\<lambda>(wheels, draws, i). 5 - i)") auto

declare allocate.simps [simp del]

subsection \<open>Creating a wheel\<close>

definition invalid_option :: outcome where
  "invalid_option =
     Respond 400 (ErrorBody ''Each option must contain a non-empty label and a positive numeric weight'')"

text \<open>
  The validation loop over \<^verbatim>\<open>payload.options\<close>; \<open>opts\<close> is the array built so far.
  \<open>Inl\<close> is the early exit: the 400 response, or the TypeError of reading a property of
  \<^verbatim>\<open>null\<close> or of a conversion that throws.
\<close>

fun sanitise :: "runtime \<Rightarrow> jsval list \<Rightarrow> wheel_option list \<Rightarrow> outcome + wheel_option list" where
  "sanitise rt [] opts = Inr opts"
| "sanitise rt (opt # rest) opts =
     (case get_prop opt ''label'' of
        None \<Rightarrow> Inl Uncaught
      | Some l \<Rightarrow>
          (case get_prop opt ''weight'' of
             None \<Rightarrow> Inl Uncaught
           | Some w \<Rightarrow>
               (case Number_js rt w of
                  None \<Rightarrow> Inl Uncaught
                | Some NaN \<Rightarrow> Inl invalid_option
                | Some PosInfinity \<Rightarrow> Inl invalid_option
                | Some NegInfinity \<Rightarrow> Inl invalid_option
                | Some (Fin x) \<Rightarrow>
                    if trimmed_string l = [] then Inl invalid_option
                    else if x \<le> 0 then Inl invalid_option
                    else sanitise rt rest (opts @ [\<lparr>label = trimmed_string l, weight = x\<rparr>]))))"

definition options_required :: outcome where
  "options_required = Respond 400 (ErrorBody ''options array is required'')"

definition create_wheel :: "runtime \<Rightarrow> jsval option \<Rightarrow> registry \<Rightarrow> outcome \<times> registry" where
  "create_wheel rt parsed wheels =
     (case parsed of
        None \<Rightarrow> (Respond 400 (ErrorBody ''Invalid JSON''), wheels)
      | Some payload \<Rightarrow>
          if truthy payload then
            (case get_prop payload ''options'' of
               Some (JArr entries) \<Rightarrow>
                 if entries = [] then (options_required, wheels)
                 else
                   (case sanitise rt entries [] of
                      Inl out \<Rightarrow> (out, wheels)
                    | Inr opts \<Rightarrow>
                        (let ident = allocate wheels (random_digits rt) 0 in
                         if wheels_get wheels ident = Missing then
                           (Respond 201
                              (CreatedBody ident (''/wheel.html?id='' @ ident)
                                 (''/results.html?id='' @ ident)),
                            wheels(ident \<mapsto> \<lparr>wheel_id = ident, options = opts, results = []\<rparr>))
                         else (Respond 500 (ErrorBody ''Could not allocate id''), wheels)))
             | _ \<Rightarrow> (options_required, wheels))
          else (options_required, wheels))"

subsection \<open>Reading a wheel\<close>

definition not_found :: outcome where
  "not_found = Respond 404 (ErrorBody ''Wheel not found'')"

definition fetch_wheel :: "registry \<Rightarrow> string \<Rightarrow> outcome" where
  "fetch_wheel wheels i =
     (case wheels_get wheels i of
        Missing \<Rightarrow> not_found
      | Own w \<Rightarrow> Respond 200 (WheelBody (wheel_id w) (options w))
      | Inherited \<Rightarrow> Respond 200 EmptyObject)"

definition list_results :: "registry \<Rightarrow> string \<Rightarrow> outcome" where
  "list_results wheels i =
     (case wheels_get wheels i of
        Missing \<Rightarrow> not_found
      | Own w \<Rightarrow> Respond 200 (ResultsBody (wheel_id w) (map (\<lambda>item. item) (results w)))
      | Inherited \<Rightarrow> Uncaught)"

subsection \<open>Spinning\<close>

text \<open>\<^verbatim>\<open>wheel.options.reduce((sum, opt) => sum + opt.weight, 0)\<close>\<close>

definition totalWeight :: "wheel_option list \<Rightarrow> jsnum" where
  "totalWeight opts = foldl (\<lambda>acc opt. js_add acc (Fin (weight opt))) (Fin 0) opts"

text \<open>
  The \<^verbatim>\<open>for\<close> loop of the selection: \<open>Some opt\<close> when the loop breaks at \<open>opt\<close>, \<open>None\<close>
  when it runs to the end of the array.
\<close>

fun walk :: "jsnum \<Rightarrow> jsnum \<Rightarrow> wheel_option list \<Rightarrow> wheel_option option" where
  "walk r cumulative [] = None"
| "walk r cumulative (opt # rest) =
     (if js_less r (js_add cumulative (Fin (weight opt))) then Some opt
      else walk r (js_add cumulative (Fin (weight opt))) rest)"

text \<open>
  \<^verbatim>\<open>chosen\<close> after the loop; it starts as \<^verbatim>\<open>wheel.options[0]\<close>, which is
  \<^verbatim>\<open>undefined\<close> (\<open>None\<close>) for an empty array.
\<close>

definition select_option :: "jsnum \<Rightarrow> wheel_option list \<Rightarrow> wheel_option option" where
  "select_option r opts =
     (case walk r (Fin 0) opts of
        Some opt \<Rightarrow> Some opt
      | None \<Rightarrow> (case opts of [] \<Rightarrow> None | first # rest \<Rightarrow> Some first))"

definition name_and_phone_required :: outcome where
  "name_and_phone_required = Respond 400 (ErrorBody ''Name and phone are required'')"

definition record_spin :: "runtime \<Rightarrow> string \<Rightarrow> jsval option \<Rightarrow> registry \<Rightarrow> outcome \<times> registry" where
  "record_spin rt i parsed wheels =
     (if wheels_get wheels i = Missing then (not_found, wheels)
      else
        (case parsed of
           None \<Rightarrow> (Respond 400 (ErrorBody ''Invalid JSON''), wheels)
         | Some payload \<Rightarrow>
             (case get_prop payload ''name'' of
                None \<Rightarrow> (Uncaught, wheels)
              | Some n \<Rightarrow>
                  (case get_prop payload ''phone'' of
                     None \<Rightarrow> (Uncaught, wheels)
                   | Some p \<Rightarrow>
                       if trimmed_string n = [] then (name_and_phone_required, wheels)
                       else if trimmed_string p = [] then (name_and_phone_required, wheels)
                       else
                         (case wheels_get wheels i of
                            Own w \<Rightarrow>
                              (case select_option
                                      (js_mul (Fin (Math_random rt)) (totalWeight (options w)))
                                      (options w) of
                                 None \<Rightarrow> (Uncaught, wheels)
                               | Some chosen \<Rightarrow>
                                   (Respond 200 (SpinBody (label chosen)),
                                    wheels(i \<mapsto> w\<lparr>results := results w @
                                      [\<lparr>name = trimmed_string n, phone = trimmed_string p,
                                        result = label chosen, timestamp = Date_now rt\<rparr>]\<rparr>)))
                          | _ \<Rightarrow> (Uncaught, wheels))))))"

subsection \<open>Routing\<close>

fun strip_prefix :: "string \<Rightarrow> string \<Rightarrow> string option" where
  "strip_prefix [] s = Some s"
| "strip_prefix (c # cs) [] = None"
| "strip_prefix (c # cs) (d # ds) = (if c = d then strip_prefix cs ds else None)"

text \<open>The character class \<^verbatim>\<open>[a-zA-Z0-9_-]\<close>.\<close>

definition id_char :: "char \<Rightarrow> bool" where
  "id_char c = (c \<in> set ''abcdefghijklmnopqrstuvwxyzABCDEFGHIJKLMNOPQRSTUVWXYZ0123456789_-'')"

text \<open>
  \<^verbatim>\<open>pathname.match(/^\/api\/wheel\/([a-zA-Z0-9_-]+)SUFFIX/)\<close>, giving the group.  The
  class does not contain the slash that starts a non-empty suffix, so the group is the
  longest run of class characters; the patterns have no anchor at the end.
\<close>

definition match_route :: "string \<Rightarrow> string \<Rightarrow> string option" where
  "match_route suffix path =
     (case strip_prefix ''/api/wheel/'' path of
        None \<Rightarrow> None
      | Some rest \<Rightarrow>
          if takeWhile id_char rest = [] then None
          else (case strip_prefix suffix (dropWhile id_char rest) of
                  None \<Rightarrow> None
                | Some tail \<Rightarrow> Some (takeWhile id_char rest)))"

definition handleApi :: "runtime \<Rightarrow> request \<Rightarrow> registry \<Rightarrow> outcome \<times> registry" where
  "handleApi rt req wheels =
     (if http_method req = ''POST'' \<and> pathname req = ''/api/wheels'' then
        create_wheel rt (parsed_body req) wheels
      else
        (case (if http_method req = ''GET'' then match_route [] (pathname req) else None) of
           Some i \<Rightarrow> (fetch_wheel wheels i, wheels)
         | None \<Rightarrow>
             (case (if http_method req = ''GET'' then match_route ''/results'' (pathname req) else None) of
                Some i \<Rightarrow> (list_results wheels i, wheels)
              | None \<Rightarrow>
                  (case (if http_method req = ''POST'' then match_route ''/spin'' (pathname req) else None) of
                     Some i \<Rightarrow> record_spin rt i (parsed_body req) wheels
                   | None \<Rightarrow> (NotHandled, wheels)))))"

subsection \<open>Vocabulary for the properties\<close>

text \<open>
  \<^verbatim>\<open>cumulative\<close> when the loop reaches index \<open>i\<close>: the weights before it, added one by
  one as doubles.  \<open>ideal_before\<close> is their sum over the reals, without rounding.
\<close>

definition cumulative_before :: "wheel_option list \<Rightarrow> nat \<Rightarrow> jsnum" where
  "cumulative_before opts i = totalWeight (take i opts)"

definition ideal_before :: "wheel_option list \<Rightarrow> nat \<Rightarrow> real" where
  "ideal_before opts i = sum_list (map weight (take i opts))"

text \<open>What a running sum of doubles that are not negative can be.\<close>

fun running :: "jsnum \<Rightarrow> bool" where
  "running (Fin x) = (0 \<le> x \<and> is_double x)"
| "running PosInfinity = True"
| "running NegInfinity = False"
| "running NaN = False"

text \<open>The options A (weight 1) and B (weight 3).\<close>

definition example_options :: "wheel_option list" where
  "example_options = [\<lparr>label = ''A'', weight = 1\<rparr>, \<lparr>label = ''B'', weight = 3\<rparr>]"

text \<open>
  Options whose weights add up beyond the largest double, and options whose small
  weights are lost in the rounding of the running sum.
\<close>

definition overflow_options :: "wheel_option list" where
  "overflow_options = [\<lparr>label = ''A'', weight = 2 ^ 1023\<rparr>, \<lparr>label = ''B'', weight = 2 ^ 1023\<rparr>]"

definition absorbed_options :: "wheel_option list" where
  "absorbed_options =
     [\<lparr>label = ''A'', weight = 2 ^ 53\<rparr>, \<lparr>label = ''B'', weight = 1\<rparr>, \<lparr>label = ''C'', weight = 2\<rparr>]"

definition absorbed_twice :: "wheel_option list" where
  "absorbed_twice =
     [\<lparr>label = ''A'', weight = 2 ^ 53\<rparr>, \<lparr>label = ''B'', weight = 1\<rparr>, \<lparr>label = ''C'', weight = 1\<rparr>]"

text \<open>The largest value of \<^verbatim>\<open>Math.random()\<close>.\<close>

definition last_draw :: real where
  "last_draw = 1 - 1 / 2 ^ 53"

text \<open>An id that a route pattern can capture: not empty, of class characters only.\<close>

definition route_id :: "string \<Rightarrow> bool" where
  "route_id i = (i \<noteq> [] \<and> list_all id_char i)"

text \<open>The entry \<^verbatim>\<open>{label: l, weight: w}\<close> with a string and a finite number.\<close>

definition entry :: "string \<times> real \<Rightarrow> jsval" where
  "entry e = JObj [(''label'', JStr (fst e)), (''weight'', JNum (Fin (snd e)))]"

text \<open>The request body \<^verbatim>\<open>{options: [...]}\<close> of such entries.\<close>

definition submitted :: "(string \<times> real) list \<Rightarrow> jsval" where
  "submitted raw = JObj [(''options'', JArr (map entry raw))]"

text \<open>Label not empty after trimming, weight positive.\<close>

definition valid_entry :: "string \<times> real \<Rightarrow> bool" where
  "valid_entry e = (trim (fst e) \<noteq> [] \<and> 0 < snd e)"

text \<open>The entry with its label trimmed.\<close>

definition stored_option :: "string \<times> real \<Rightarrow> wheel_option" where
  "stored_option e = \<lparr>label = trim (fst e), weight = snd e\<rparr>"

text \<open>\<^verbatim>\<open>POST /api/wheels\<close> with a parsed body, and with the body of such entries.\<close>

definition post_wheels :: "jsval \<Rightarrow> request" where
  "post_wheels payload =
     \<lparr>http_method = ''POST'', pathname = ''/api/wheels'', parsed_body = Some payload\<rparr>"

definition create_request :: "(string \<times> real) list \<Rightarrow> request" where
  "create_request raw = post_wheels (submitted raw)"

text \<open>
  The validation loop turns the entry \<open>e\<close> into the option \<open>opt\<close>: the label is the
  trimmed string and is not empty, the weight is the finite positive value of \<^verbatim>\<open>Number\<close>.
\<close>

definition accepted_as :: "runtime \<Rightarrow> jsval \<Rightarrow> wheel_option \<Rightarrow> bool" where
  "accepted_as rt e opt =
     (case get_prop e ''label'' of
        None \<Rightarrow> False
      | Some l \<Rightarrow>
          (case get_prop e ''weight'' of
             None \<Rightarrow> False
           | Some w \<Rightarrow>
               trimmed_string l \<noteq> [] \<and> 0 < weight opt
               \<and> Number_js rt w = Some (Fin (weight opt))
               \<and> opt = \<lparr>label = trimmed_string l, weight = weight opt\<rparr>))"

text \<open>The wheel stored by a create, and the 201 response.\<close>

definition new_wheel :: "string \<Rightarrow> wheel_option list \<Rightarrow> wheel" where
  "new_wheel i opts = \<lparr>wheel_id = i, options = opts, results = []\<rparr>"

definition created :: "string \<Rightarrow> outcome" where
  "created i = Respond 201 (CreatedBody i (''/wheel.html?id='' @ i) (''/results.html?id='' @ i))"

text \<open>
  A runtime whose every \<^verbatim>\<open>generateId()\<close> gives \<^verbatim>\<open>abc\<close> and whose spin draws one half.
\<close>

definition example_runtime :: runtime where
  "example_runtime =
     \<lparr>random_digits = (\<lambda>k. [10, 11, 12]), Math_random = 1 / 2, Date_now = 1700000000000,
      StringToNumber = (\<lambda>s. NaN), ArrayToNumber = (\<lambda>xs. Some NaN)\<rparr>"

text \<open>A registry with the wheel \<^verbatim>\<open>abc\<close>, spun once.\<close>

definition example_registry :: registry where
  "example_registry =
     [''abc'' \<mapsto> \<lparr>wheel_id = ''abc'', options = example_options,
        results = [\<lparr>name = ''Ann'', phone = ''555-1'', result = ''B'', timestamp = 1700000000000\<rparr>]\<rparr>]"

text \<open>A runtime whose first two ids are \<^verbatim>\<open>abc\<close> and whose later ones are \<^verbatim>\<open>def\<close>.\<close>

definition retry_runtime :: runtime where
  "retry_runtime = example_runtime\<lparr>random_digits := (\<lambda>k. if k < 2 then [10, 11, 12] else [13, 14, 15])\<rparr>"

text \<open>The spin body \<^verbatim>\<open>{name: n, phone: p}\<close> and the spin request for the id \<open>i\<close>.\<close>

definition participant :: "string \<Rightarrow> string \<Rightarrow> jsval" where
  "participant n p = JObj [(''name'', JStr n), (''phone'', JStr p)]"

definition spin_request :: "string \<Rightarrow> jsval option \<Rightarrow> request" where
  "spin_request i b =
     \<lparr>http_method = ''POST'', pathname = ''/api/wheel/'' @ i @ ''/spin'', parsed_body = b\<rparr>"

text \<open>The wheel \<^verbatim>\<open>abc\<close> before its first spin.\<close>

definition fresh_registry :: registry where
  "fresh_registry = [''abc'' \<mapsto> \<lparr>wheel_id = ''abc'', options = example_options, results = []\<rparr>]"

text \<open>The wheel \<^verbatim>\<open>abc\<close> with the options whose weights overflow, before its first spin.\<close>

definition overflow_registry :: registry where
  "overflow_registry = [''abc'' \<mapsto> \<lparr>wheel_id = ''abc'', options = overflow_options, results = []\<rparr>]"

text \<open>The wheel \<^verbatim>\<open>abc\<close> with the options whose small weights are absorbed.\<close>

definition absorbed_registry :: registry where
  "absorbed_registry = [''abc'' \<mapsto> \<lparr>wheel_id = ''abc'', options = absorbed_options, results = []\<rparr>]"

text \<open>A runtime whose spin draws the largest value of \<^verbatim>\<open>Math.random()\<close>.\<close>

definition last_runtime :: runtime where
  "last_runtime = example_runtime\<lparr>Math_random := last_draw\<rparr>"

text \<open>A runtime whose every \<^verbatim>\<open>Math.random()\<close> inside \<^verbatim>\<open>generateId\<close> returns 0.\<close>

definition zero_runtime :: runtime where
  "zero_runtime = example_runtime\<lparr>random_digits := (\<lambda>k. [])\<rparr>"

text \<open>Every stored wheel carries the key it is stored under.\<close>

definition ids_match :: "registry \<Rightarrow> bool" where
  "ids_match wheels = (\<forall>k w. wheels k = Some w \<longrightarrow> wheel_id w = k)"

text \<open>\<^verbatim>\<open>GET /api/wheel/i/results\<close>\<close>

definition results_request :: "string \<Rightarrow> request" where
  "results_request i =
     \<lparr>http_method = ''GET'', pathname = ''/api/wheel/'' @ i @ ''/results'', parsed_body = None\<rparr>"

text \<open>A stored option has a label and a positive weight; a stored wheel has an option.\<close>

definition valid_option :: "wheel_option \<Rightarrow> bool" where
  "valid_option opt = (label opt \<noteq> [] \<and> 0 < weight opt)"

definition well_formed :: "registry \<Rightarrow> bool" where
  "well_formed wheels =
     (\<forall>k w. wheels k = Some w \<longrightarrow> options w \<noteq> [] \<and> list_all valid_option (options w))"

section \<open>Properties\<close>

subsection \<open>Rounding to doubles\<close>

text \<open>
  Rounding is monotone, leaves the doubles alone, and stays within the binade; the values
  used in the examples below are rounded as node rounds them.
\<close>

lemma nearest_even_of_int: "nearest_even (of_int n) = n"
  by (simp add: nearest_even_def)

lemma nearest_even_floor: "\<lfloor>q\<rfloor> \<le> nearest_even q" "nearest_even q \<le> \<lfloor>q\<rfloor> + 1"
  by (simp_all add: nearest_even_def)

lemma nearest_even_mono: "q \<le> q' \<Longrightarrow> nearest_even q \<le> nearest_even q'"
proof -
  assume le: "q \<le> q'"
  then have fl: "\<lfloor>q\<rfloor> \<le> \<lfloor>q'\<rfloor>" by (rule floor_mono)
  show ?thesis
  proof (cases "\<lfloor>q\<rfloor> = \<lfloor>q'\<rfloor>")
    case True
    with le show ?thesis by (auto simp: nearest_even_def)
  next
    case False
    with fl have "\<lfloor>q\<rfloor> + 1 \<le> \<lfloor>q'\<rfloor>" by simp
    with nearest_even_floor(2) [of q] nearest_even_floor(1) [of q'] show ?thesis by linarith
  qed
qed

lemma nearest_even_le: "q \<le> of_int m \<Longrightarrow> nearest_even q \<le> m"
  using nearest_even_mono [of q "of_int m"] by (simp add: nearest_even_of_int)

lemma nearest_even_ge: "of_int m \<le> q \<Longrightarrow> m \<le> nearest_even q"
  using nearest_even_mono [of "of_int m" q] by (simp add: nearest_even_of_int)

lemma binade_normal:
  "0 < a \<Longrightarrow> - 1022 \<le> e \<Longrightarrow> 2 powr of_int e \<le> a \<Longrightarrow> a < 2 powr (of_int e + 1) \<Longrightarrow> binade a = e"
proof -
  assume a: "0 < a" "- 1022 \<le> e" "2 powr of_int e \<le> a" "a < 2 powr (of_int e + 1)"
  then have "\<lfloor>log 2 a\<rfloor> = e"
    by (simp add: floor_log_eq_powr_iff)
  with a(2) show ?thesis by (simp add: binade_def)
qed

lemma binade_subnormal: "0 < a \<Longrightarrow> a < 2 powr (- 1022) \<Longrightarrow> binade a = - 1022"
proof -
  assume a: "0 < a" "a < 2 powr (- 1022)"
  have "\<lfloor>log 2 a\<rfloor> < - 1022"
  proof -
    have "log 2 a < - 1022"
      using a by (simp add: log_less_iff)
    then show ?thesis by (simp add: floor_less_iff)
  qed
  then show ?thesis by (simp add: binade_def)
qed

lemma binade_ge: "- 1022 \<le> binade a"
  by (simp add: binade_def)

lemma binade_mono: "0 < a \<Longrightarrow> a \<le> b \<Longrightarrow> binade a \<le> binade b"
  unfolding binade_def by (intro max.mono floor_mono) (simp_all add: log_le_cancel_iff)

lemma ulp_pos: "0 < ulp a"
  by (simp add: ulp_def)

lemma binade_lower: "0 < a \<Longrightarrow> - 1022 < binade a \<Longrightarrow> 2 powr of_int (binade a) \<le> a"
proof -
  assume a: "0 < a" "- 1022 < binade a"
  then have "binade a = \<lfloor>log 2 a\<rfloor>" by (simp add: binade_def max_def split: if_splits)
  moreover have "2 powr of_int \<lfloor>log 2 a\<rfloor> \<le> a"
    using a(1) floor_log_eq_powr_iff [of a 2 "\<lfloor>log 2 a\<rfloor>"] by simp
  ultimately show ?thesis by simp
qed

lemma binade_upper: "0 < a \<Longrightarrow> a < 2 powr (of_int (binade a) + 1)"
proof -
  assume a: "0 < a"
  have "a < 2 powr (of_int \<lfloor>log 2 a\<rfloor> + 1)"
    using a floor_log_eq_powr_iff [of a 2 "\<lfloor>log 2 a\<rfloor>"] by simp
  also have "\<dots> \<le> 2 powr (of_int (binade a) + 1)"
    by (simp add: binade_def)
  finally show ?thesis .
qed

lemma ulp_times: "ulp a * 2 ^ 52 = 2 powr of_int (binade a)" "ulp a * 2 ^ 53 = 2 powr (of_int (binade a) + 1)"
proof -
  have p52: "(2::real) powr 52 = 2 ^ 52" and p53: "(2::real) powr 53 = 2 ^ 53"
    by simp_all
  have "ulp a * 2 powr 52 = 2 powr (of_int (binade a) - 52 + 52)"
    unfolding ulp_def by (rule powr_add [symmetric])
  then show "ulp a * 2 ^ 52 = 2 powr of_int (binade a)"
    unfolding p52 by simp
  have "ulp a * 2 powr 53 = 2 powr (of_int (binade a) - 52 + 53)"
    unfolding ulp_def by (rule powr_add [symmetric])
  then show "ulp a * 2 ^ 53 = 2 powr (of_int (binade a) + 1)"
    unfolding p53 by (simp add: add.commute)
qed

lemma nearest_exact: "a / ulp a = of_int n \<Longrightarrow> nearest a = a"
proof -
  assume "a / ulp a = of_int n"
  then have "nearest a = (a / ulp a) * ulp a"
    by (simp add: nearest_def nearest_even_of_int)
  then show ?thesis using ulp_pos [of a] by simp
qed

lemma nearest_nonneg: "0 \<le> a \<Longrightarrow> 0 \<le> nearest a"
proof -
  assume "0 \<le> a"
  then have "of_int 0 \<le> a / ulp a" using ulp_pos [of a] by simp
  then have "0 \<le> nearest_even (a / ulp a)" by (rule nearest_even_ge)
  then show ?thesis using ulp_pos [of a] by (simp add: nearest_def)
qed

lemma nearest_upper: "0 < a \<Longrightarrow> nearest a \<le> 2 powr (of_int (binade a) + 1)"
proof -
  assume a: "0 < a"
  have "a \<le> ulp a * 2 ^ 53"
    using binade_upper [OF a] unfolding ulp_times(2) [symmetric] by simp
  then have "a / ulp a \<le> of_int (2 ^ 53)"
    using ulp_pos [of a] by (simp add: field_simps)
  then have "nearest_even (a / ulp a) \<le> 2 ^ 53" by (rule nearest_even_le)
  then have "of_int (nearest_even (a / ulp a)) \<le> (2 ^ 53 :: real)"
    by (metis of_int_le_iff of_int_numeral of_int_power)
  then have "nearest a \<le> 2 ^ 53 * ulp a"
    unfolding nearest_def using ulp_pos [of a] by (intro mult_right_mono) simp_all
  then have "nearest a \<le> ulp a * 2 ^ 53" by (simp only: mult.commute)
  then show ?thesis unfolding ulp_times(2) .
qed

lemma nearest_lower: "2 powr of_int (binade a) \<le> a \<Longrightarrow> 2 powr of_int (binade a) \<le> nearest a"
proof -
  assume a: "2 powr of_int (binade a) \<le> a"
  then have "ulp a * 2 ^ 52 \<le> a" unfolding ulp_times(1) [symmetric] .
  then have "of_int (2 ^ 52) \<le> a / ulp a"
    using ulp_pos [of a] by (simp add: field_simps)
  then have "2 ^ 52 \<le> nearest_even (a / ulp a)" by (rule nearest_even_ge)
  then have "(2 ^ 52 :: real) \<le> of_int (nearest_even (a / ulp a))"
    by (metis of_int_le_iff of_int_numeral of_int_power)
  then have "2 ^ 52 * ulp a \<le> nearest a"
    unfolding nearest_def using ulp_pos [of a] by (intro mult_right_mono) simp_all
  then have "ulp a * 2 ^ 52 \<le> nearest a" by (simp only: mult.commute)
  then show ?thesis unfolding ulp_times(1) .
qed

lemma nearest_mono: "0 < a \<Longrightarrow> a \<le> b \<Longrightarrow> nearest a \<le> nearest b"
proof -
  assume a: "0 < a" and le: "a \<le> b"
  then have b: "0 < b" by simp
  show ?thesis
  proof (cases "binade a = binade b")
    case True
    then have u: "ulp a = ulp b" by (simp add: ulp_def)
    have "a / ulp b \<le> b / ulp b"
      using le ulp_pos [of b] by (simp add: divide_right_mono)
    then have "nearest_even (a / ulp b) \<le> nearest_even (b / ulp b)"
      by (rule nearest_even_mono)
    then show ?thesis
      unfolding nearest_def u using ulp_pos [of b] by (intro mult_right_mono) simp_all
  next
    case False
    with binade_mono [OF a le] have lt: "binade a + 1 \<le> binade b" by simp
    then have "- 1022 < binade b" using binade_ge [of a] by linarith
    then have "2 powr of_int (binade b) \<le> b" using b by (intro binade_lower)
    then have "2 powr of_int (binade b) \<le> nearest b" by (rule nearest_lower)
    moreover have "nearest a \<le> 2 powr (of_int (binade a) + 1)"
      using a by (rule nearest_upper)
    moreover have "(2::real) powr (of_int (binade a) + 1) \<le> 2 powr of_int (binade b)"
    proof -
      have "(of_int (binade a) + 1 :: real) \<le> of_int (binade b)"
        using lt by (metis of_int_1 of_int_add of_int_le_iff)
      then show ?thesis by (simp add: powr_mono)
    qed
    ultimately show ?thesis by linarith
  qed
qed

lemma nearest_idem: "0 < a \<Longrightarrow> nearest (nearest a) = nearest a"
proof -
  assume a: "0 < a"
  let ?n = "nearest_even (a / ulp a)"
  let ?y = "nearest a"
  have y: "?y = of_int ?n * ulp a" by (simp add: nearest_def)
  show ?thesis
  proof (cases "?y = 0")
    case True
    have "nearest 0 = 0" by (simp add: nearest_def nearest_even_def)
    with True show ?thesis by simp
  next
    case False
    with nearest_nonneg [of a] a have ypos: "0 < ?y" by simp
    show ?thesis
    proof (cases "?y = 2 powr (of_int (binade a) + 1)")
      case True
      have "binade ?y = binade a + 1"
      proof (rule binade_normal [OF ypos])
        show "- 1022 \<le> binade a + 1" using binade_ge [of a] by simp
        show "2 powr of_int (binade a + 1) \<le> ?y" using True by simp
        show "?y < 2 powr (of_int (binade a + 1) + 1)" using True by simp
      qed
      then have "ulp ?y = 2 powr (of_int (binade a) + 1 - 52)"
        by (simp add: ulp_def)
      then have "?y / ulp ?y = 2 powr 52"
        unfolding True by (simp add: powr_diff [symmetric])
      then have "?y / ulp ?y = of_int (2 ^ 52)" by simp
      then show ?thesis by (rule nearest_exact)
    next
      case not_top: False
      with nearest_upper [OF a] have lt: "?y < 2 powr (of_int (binade a) + 1)" by simp
      have "binade ?y = binade a"
      proof (cases "2 powr of_int (binade a) \<le> ?y")
        case True
        show ?thesis
          using ypos binade_ge [of a] True lt by (rule binade_normal)
      next
        case False
        then have small: "?y < 2 powr of_int (binade a)" by simp
        have "\<not> 2 powr of_int (binade a) \<le> a"
          using nearest_lower [of a] small by auto
        then have "\<not> - 1022 < binade a"
          using binade_lower [OF a] by auto
        with binade_ge [of a] have clamp: "binade a = - 1022" by simp
        with small have "?y < 2 powr (- 1022)" by simp
        with ypos have "binade ?y = - 1022" by (rule binade_subnormal)
        with clamp show ?thesis by simp
      qed
      then have "ulp ?y = ulp a" by (simp add: ulp_def)
      then have "?y / ulp ?y = of_int ?n"
        using ulp_pos [of a] by (simp add: y)
      then show ?thesis by (rule nearest_exact)
    qed
  qed
qed

lemma to_double_0: "to_double 0 = Fin 0"
  by (simp add: to_double_def)

lemma nearest_in_binade:
  assumes "0 < a" and "- 1022 \<le> e" and "2 powr of_int e \<le> a" and "a < 2 powr (of_int e + 1)"
  shows "nearest a = of_int (nearest_even (a / 2 powr (of_int e - 52))) * 2 powr (of_int e - 52)"
  using binade_normal [OF assms] by (simp add: nearest_def ulp_def)

lemma nearest_even_numeral: "nearest_even (numeral k) = numeral k"
  using nearest_even_of_int [of "numeral k"] by simp

lemma to_double_values:
  "to_double 1 = Fin 1"
  "to_double 2 = Fin 2"
  "to_double 3 = Fin 3"
  "to_double 4 = Fin 4"
proof -
  have "nearest 1 = 1"
    using nearest_in_binade [of 1 0] by (simp add: powr_neg_numeral nearest_even_numeral)
  then show "to_double 1 = Fin 1" by (simp add: to_double_def)
  have "nearest 2 = 2"
    using nearest_in_binade [of 2 1] by (simp add: powr_neg_numeral nearest_even_numeral)
  then show "to_double 2 = Fin 2" by (simp add: to_double_def)
  have "nearest 3 = 3"
    using nearest_in_binade [of 3 1] by (simp add: powr_neg_numeral nearest_even_numeral)
  then show "to_double 3 = Fin 3" by (simp add: to_double_def)
  have "nearest 4 = 4"
    using nearest_in_binade [of 4 2] by (simp add: powr_neg_numeral nearest_even_numeral)
  then show "to_double 4 = Fin 4" by (simp add: to_double_def)
qed

lemma to_double_53:
  "to_double (2 ^ 53) = Fin (2 ^ 53)"
  "to_double (2 ^ 53 + 1) = Fin (2 ^ 53)"
  "to_double (2 ^ 53 + 2) = Fin (2 ^ 53 + 2)"
  "to_double ((1 - 1 / 2 ^ 53) * 2 ^ 53) = Fin (2 ^ 53 - 1)"
  "to_double ((1 - 1 / 2 ^ 53) * (2 ^ 53 + 2)) = Fin (2 ^ 53)"
proof -
  have "nearest (2 ^ 53) = 2 ^ 53"
    using nearest_in_binade [of "2 ^ 53" 53] by (simp add: nearest_even_numeral)
  then show "to_double (2 ^ 53) = Fin (2 ^ 53)" by (simp add: to_double_def)
  have "nearest (2 ^ 53 + 1) = 2 ^ 53"
    using nearest_in_binade [of "2 ^ 53 + 1" 53] by (simp add: nearest_even_def)
  then show "to_double (2 ^ 53 + 1) = Fin (2 ^ 53)" by (simp add: to_double_def)
  have "nearest (2 ^ 53 + 2) = 2 ^ 53 + 2"
    using nearest_in_binade [of "2 ^ 53 + 2" 53] by (simp add: nearest_even_numeral)
  then show "to_double (2 ^ 53 + 2) = Fin (2 ^ 53 + 2)" by (simp add: to_double_def)
  have "nearest ((1 - 1 / 2 ^ 53) * 2 ^ 53) = 2 ^ 53 - 1"
    using nearest_in_binade [of "(1 - 1 / 2 ^ 53) * 2 ^ 53" 52] by (simp add: nearest_even_numeral)
  then show "to_double ((1 - 1 / 2 ^ 53) * 2 ^ 53) = Fin (2 ^ 53 - 1)" by (simp add: to_double_def)
  have "nearest ((1 - 1 / 2 ^ 53) * (2 ^ 53 + 2)) = 2 ^ 53"
    using nearest_in_binade [of "(1 - 1 / 2 ^ 53) * (2 ^ 53 + 2)" 53] by (simp add: nearest_even_def)
  then show "to_double ((1 - 1 / 2 ^ 53) * (2 ^ 53 + 2)) = Fin (2 ^ 53)" by (simp add: to_double_def)
qed

lemma to_double_1023:
  "to_double (2 ^ 1023) = Fin (2 ^ 1023)"
  "to_double (2 ^ 1023 + 2 ^ 1023) = PosInfinity"
proof -
  have "nearest (2 ^ 1023) = 2 ^ 1023"
    using nearest_in_binade [of "2 ^ 1023" 1023] by (simp add: nearest_even_numeral)
  then show "to_double (2 ^ 1023) = Fin (2 ^ 1023)" by (simp add: to_double_def)
  have "nearest (2 ^ 1023 + 2 ^ 1023) = 2 ^ 1024"
    using nearest_in_binade [of "2 ^ 1023 + 2 ^ 1023" 1024] by (simp add: nearest_even_numeral)
  then show "to_double (2 ^ 1023 + 2 ^ 1023) = PosInfinity" by (simp add: to_double_def)
qed

lemma to_double_fractions:
  "to_double (1 / 2) = Fin (1 / 2)"
  "to_double (1 - 1 / 2 ^ 53) = Fin (1 - 1 / 2 ^ 53)"
proof -
  have "nearest (1 / 2) = 1 / 2"
    using nearest_in_binade [of "1 / 2" "- 1"] by (simp add: powr_neg_numeral powr_minus nearest_even_numeral)
  then show "to_double (1 / 2) = Fin (1 / 2)" by (simp add: to_double_def)
  have "nearest (1 - 1 / 2 ^ 53) = 1 - 1 / 2 ^ 53"
    using nearest_in_binade [of "1 - 1 / 2 ^ 53" "- 1"] by (simp add: powr_neg_numeral powr_minus nearest_even_numeral)
  then show "to_double (1 - 1 / 2 ^ 53) = Fin (1 - 1 / 2 ^ 53)" by (simp add: to_double_def)
qed

subsection \<open>Running sums\<close>

text \<open>
  The running sum of the loop, and of \<^verbatim>\<open>reduce\<close>, starts at 0 and grows by weights that
  are not negative: it is a double that is not negative or \<^verbatim>\<open>Infinity\<close>, never \<open>NaN\<close>, and
  adding a weight never lowers it, rounded as the sum is.
\<close>

lemma js_less_le_trans: "js_less r a \<Longrightarrow> \<not> js_less b a \<Longrightarrow> b \<noteq> NaN \<Longrightarrow> js_less r b"
  by (cases r; cases a; cases b) auto

lemma js_le_trans: "\<not> js_less b a \<Longrightarrow> \<not> js_less c b \<Longrightarrow> b \<noteq> NaN \<Longrightarrow> \<not> js_less c a"
  by (cases a; cases b; cases c) auto

lemma js_less_irrefl: "\<not> js_less a a"
  by (cases a) auto

lemma running_not_NaN: "running c \<Longrightarrow> c \<noteq> NaN"
  by (cases c) auto

lemma to_double_nonneg_cases:
  assumes "0 \<le> s"
  shows "to_double s = PosInfinity \<or> (to_double s = Fin (nearest s) \<and> nearest s < 2 ^ 1024)"
proof (cases "s = 0")
  case True
  have "nearest 0 = 0" by (simp add: nearest_def nearest_even_def)
  with True show ?thesis by (simp add: to_double_def)
next
  case False
  with assms have "0 < s" by simp
  then show ?thesis by (auto simp: to_double_def)
qed

lemma is_double_nearest: "0 \<le> s \<Longrightarrow> nearest s < 2 ^ 1024 \<Longrightarrow> is_double (nearest s)"
proof -
  assume s: "0 \<le> s" and fin: "nearest s < 2 ^ 1024"
  show ?thesis
  proof (cases "nearest s = 0")
    case True
    then show ?thesis by (simp add: is_double_def to_double_def)
  next
    case False
    with nearest_nonneg [OF s] have pos: "0 < nearest s" by simp
    then have "0 < s" using s by (cases "s = 0") (auto simp: nearest_def nearest_even_def)
    then have "nearest (nearest s) = nearest s" by (rule nearest_idem)
    with pos fin show ?thesis by (simp add: is_double_def to_double_def)
  qed
qed

lemma is_double_nearest_eq: "0 < x \<Longrightarrow> is_double x \<Longrightarrow> nearest x = x"
  by (auto simp: is_double_def to_double_def split: if_splits)

lemma js_add_running:
  assumes "running c" and "0 \<le> w"
  shows "running (js_add c (Fin w))" and "\<not> js_less (js_add c (Fin w)) c"
proof -
  have "running (js_add c (Fin w)) \<and> \<not> js_less (js_add c (Fin w)) c"
  proof (cases c)
    case (Fin x)
    with assms(1) have x: "0 \<le> x" "is_double x" by simp_all
    then have s: "0 \<le> x + w" using assms(2) by simp
    have le: "x \<le> nearest (x + w)"
    proof (cases "x = 0")
      case True
      with nearest_nonneg [OF s] show ?thesis by simp
    next
      case False
      with x(1) have "0 < x" by simp
      then have "nearest x \<le> nearest (x + w)"
        using assms(2) by (intro nearest_mono) simp_all
      with is_double_nearest_eq [OF \<open>0 < x\<close> x(2)] show ?thesis by simp
    qed
    from to_double_nonneg_cases [OF s] show ?thesis
    proof
      assume "to_double (x + w) = PosInfinity"
      with Fin show ?thesis by simp
    next
      assume fin: "to_double (x + w) = Fin (nearest (x + w)) \<and> nearest (x + w) < 2 ^ 1024"
      with is_double_nearest [OF s] nearest_nonneg [OF s] le Fin show ?thesis by simp
    qed
  next
    case PosInfinity
    then show ?thesis by simp
  next
    case NegInfinity
    with assms(1) show ?thesis by simp
  next
    case NaN
    with assms(1) show ?thesis by simp
  qed
  then show "running (js_add c (Fin w))" and "\<not> js_less (js_add c (Fin w)) c" by simp_all
qed

lemma cumulative_before_0: "cumulative_before opts 0 = Fin 0"
  by (simp add: cumulative_before_def totalWeight_def)

lemma cumulative_before_length: "cumulative_before opts (length opts) = totalWeight opts"
  by (simp add: cumulative_before_def)

lemma cumulative_before_Suc:
  "i < length opts \<Longrightarrow>
   cumulative_before opts (Suc i) = js_add (cumulative_before opts i) (Fin (weight (opts ! i)))"
  by (simp add: cumulative_before_def totalWeight_def take_Suc_conv_app_nth)

lemma running_cumulative:
  assumes "\<forall>opt\<in>set opts. 0 \<le> weight opt" and "i \<le> length opts"
  shows "running (cumulative_before opts i)"
  using assms(2)
proof (induction i)
  case 0
  show ?case by (simp add: cumulative_before_0 is_double_def to_double_0)
next
  case (Suc i)
  then have i: "i < length opts" and run: "running (cumulative_before opts i)" by simp_all
  from i assms(1) have "0 \<le> weight (opts ! i)" by simp
  with run show ?case
    unfolding cumulative_before_Suc [OF i] by (rule js_add_running(1))
qed

lemma cumulative_before_mono:
  assumes "\<forall>opt\<in>set opts. 0 \<le> weight opt" and "i \<le> j" and "j \<le> length opts"
  shows "\<not> js_less (cumulative_before opts j) (cumulative_before opts i)"
  using assms(2,3)
proof (induction j)
  case 0
  then show ?case by (simp add: js_less_irrefl)
next
  case (Suc j)
  show ?case
  proof (cases "i = Suc j")
    case True
    then show ?thesis by (simp add: js_less_irrefl)
  next
    case False
    with Suc.prems have ij: "i \<le> j" and j: "j < length opts" by simp_all
    then have IH: "\<not> js_less (cumulative_before opts j) (cumulative_before opts i)"
      using Suc.IH by simp
    have run: "running (cumulative_before opts j)"
      using assms(1) j by (intro running_cumulative) simp_all
    from j assms(1) have w: "0 \<le> weight (opts ! j)" by simp
    have step: "\<not> js_less (cumulative_before opts (Suc j)) (cumulative_before opts j)"
      unfolding cumulative_before_Suc [OF j] using run w by (rule js_add_running(2))
    from IH step running_not_NaN [OF run] show ?thesis by (rule js_le_trans)
  qed
qed

subsection \<open>The selection walk\<close>

text \<open>
  The walk index by index: it returns the first option whose running sum is above \<open>r\<close>,
  and falls through when there is none.
\<close>

lemma walk_in_set: "walk r c opts = Some opt \<Longrightarrow> opt \<in> set opts"
  by (induction opts arbitrary: c) (auto split: if_splits)

lemma walk_step:
  assumes "k < length opts"
  shows "walk r (cumulative_before opts k) (drop k opts) =
     (if js_less r (cumulative_before opts (Suc k)) then Some (opts ! k)
      else walk r (cumulative_before opts (Suc k)) (drop (Suc k) opts))"
proof -
  have d: "drop k opts = opts ! k # drop (Suc k) opts"
    using assms by (rule Cons_nth_drop_Suc [symmetric])
  show ?thesis
    by (subst d) (simp only: walk.simps cumulative_before_Suc [OF assms])
qed

lemma walk_from_None:
  "k \<le> length opts \<Longrightarrow>
   (walk r (cumulative_before opts k) (drop k opts) = None)
     = (\<forall>j. k \<le> j \<and> j < length opts \<longrightarrow> \<not> js_less r (cumulative_before opts (Suc j)))"
proof (induction "length opts - k" arbitrary: k)
  case 0
  then show ?case by auto
next
  case (Suc n)
  then have k: "k < length opts" and n: "n = length opts - Suc k" "Suc k \<le> length opts"
    by simp_all
  note IH = Suc.hyps(1) [OF n]
  show ?case
  proof (cases "js_less r (cumulative_before opts (Suc k))")
    case True
    with k show ?thesis unfolding walk_step [OF k] by auto
  next
    case False
    have "(\<forall>j. k \<le> j \<and> j < length opts \<longrightarrow> \<not> js_less r (cumulative_before opts (Suc j)))
        = (\<forall>j. Suc k \<le> j \<and> j < length opts \<longrightarrow> \<not> js_less r (cumulative_before opts (Suc j)))"
      (is "?L = ?R")
    proof
      assume ?L
      then show ?R by auto
    next
      assume R: ?R
      show ?L
      proof (intro allI impI)
        fix j assume j: "k \<le> j \<and> j < length opts"
        show "\<not> js_less r (cumulative_before opts (Suc j))"
        proof (cases "j = k")
          case True
          with False show ?thesis by simp
        next
          case neq: False
          with j have "Suc k \<le> j \<and> j < length opts" by simp
          with R show ?thesis by blast
        qed
      qed
    qed
    with False IH show ?thesis unfolding walk_step [OF k] by simp
  qed
qed

lemma walk_from_Some:
  "k \<le> length opts \<Longrightarrow> walk r (cumulative_before opts k) (drop k opts) = Some opt \<Longrightarrow>
   \<exists>i. k \<le> i \<and> i < length opts \<and> opt = opts ! i
     \<and> js_less r (cumulative_before opts (Suc i))
     \<and> (\<forall>j. k \<le> j \<and> j < i \<longrightarrow> \<not> js_less r (cumulative_before opts (Suc j)))"
proof (induction "length opts - k" arbitrary: k)
  case 0
  then show ?case by simp
next
  case (Suc n)
  then have k: "k < length opts" and n: "n = length opts - Suc k" "Suc k \<le> length opts"
    by simp_all
  show ?case
  proof (cases "js_less r (cumulative_before opts (Suc k))")
    case True
    with Suc.prems(2) have "opt = opts ! k" unfolding walk_step [OF k] by simp
    with True k show ?thesis by (intro exI [of _ k]) auto
  next
    case False
    with Suc.prems(2) have "walk r (cumulative_before opts (Suc k)) (drop (Suc k) opts) = Some opt"
      unfolding walk_step [OF k] by simp
    from Suc.hyps(1) [OF n this] obtain i where i: "Suc k \<le> i" "i < length opts" "opt = opts ! i"
      "js_less r (cumulative_before opts (Suc i))"
      "\<forall>j. Suc k \<le> j \<and> j < i \<longrightarrow> \<not> js_less r (cumulative_before opts (Suc j))"
      by blast
    have "\<forall>j. k \<le> j \<and> j < i \<longrightarrow> \<not> js_less r (cumulative_before opts (Suc j))"
    proof (intro allI impI)
      fix j assume j: "k \<le> j \<and> j < i"
      show "\<not> js_less r (cumulative_before opts (Suc j))"
      proof (cases "j = k")
        case True
        with False show ?thesis by simp
      next
        case neq: False
        with j have "Suc k \<le> j \<and> j < i" by simp
        with i(5) show ?thesis by blast
      qed
    qed
    with i show ?thesis by (intro exI [of _ i]) simp
  qed
qed

lemma walk_None_iff:
  "(walk r (Fin 0) opts = None) = (\<forall>j<length opts. \<not> js_less r (cumulative_before opts (Suc j)))"
  using walk_from_None [of 0 opts r] by (simp add: cumulative_before_0)

lemma walk_Some:
  "walk r (Fin 0) opts = Some opt \<Longrightarrow>
   \<exists>i<length opts. opt = opts ! i \<and> js_less r (cumulative_before opts (Suc i))
     \<and> (\<forall>j<i. \<not> js_less r (cumulative_before opts (Suc j)))"
  using walk_from_Some [of 0 opts r opt] by (simp add: cumulative_before_0)

text \<open>
  As the running sums never decrease, the walk falls through exactly when \<open>r\<close> is not
  below the last of them, the total; and the intervals between consecutive running sums
  do not overlap.
\<close>

lemma falls_through_iff:
  assumes "\<forall>opt\<in>set opts. 0 < weight opt" and "opts \<noteq> []"
  shows "(walk r (Fin 0) opts = None) = (\<not> js_less r (totalWeight opts))"
proof
  assume "walk r (Fin 0) opts = None"
  then have all: "\<forall>j<length opts. \<not> js_less r (cumulative_before opts (Suc j))"
    by (simp add: walk_None_iff)
  have last: "length opts - 1 < length opts" "Suc (length opts - 1) = length opts"
    using assms(2) by simp_all
  from all last(1) have "\<not> js_less r (cumulative_before opts (Suc (length opts - 1)))"
    by blast
  then show "\<not> js_less r (totalWeight opts)"
    unfolding last(2) cumulative_before_length .
next
  assume total: "\<not> js_less r (totalWeight opts)"
  have nonneg: "\<forall>opt\<in>set opts. 0 \<le> weight opt"
    using assms(1) by (simp add: less_imp_le)
  have "\<not> js_less r (cumulative_before opts (Suc j))" if "j < length opts" for j
  proof
    assume "js_less r (cumulative_before opts (Suc j))"
    moreover have "\<not> js_less (cumulative_before opts (length opts)) (cumulative_before opts (Suc j))"
      using nonneg that by (intro cumulative_before_mono) simp_all
    moreover have "cumulative_before opts (length opts) \<noteq> NaN"
      using nonneg by (intro running_not_NaN running_cumulative) simp_all
    ultimately have "js_less r (cumulative_before opts (length opts))"
      by (rule js_less_le_trans)
    with total show False by (simp add: cumulative_before_length)
  qed
  then show "walk r (Fin 0) opts = None" by (simp add: walk_None_iff)
qed

lemma interval_unique:
  assumes nonneg: "\<forall>opt\<in>set opts. 0 \<le> weight opt"
    and i: "i < length opts" "js_less r (cumulative_before opts (Suc i))"
      "\<forall>j<i. \<not> js_less r (cumulative_before opts (Suc j))"
    and j: "j < length opts" "\<not> js_less r (cumulative_before opts j)"
      "js_less r (cumulative_before opts (Suc j))"
  shows "j = i"
proof (rule ccontr)
  assume "j \<noteq> i"
  then consider "j < i" | "i < j" by linarith
  then show False
  proof cases
    case 1
    with i(3) j(3) show False by simp
  next
    case 2
    have mono: "\<not> js_less (cumulative_before opts j) (cumulative_before opts (Suc i))"
      using nonneg 2 j(1) by (intro cumulative_before_mono) simp_all
    have "running (cumulative_before opts j)"
      using nonneg j(1) by (intro running_cumulative) simp_all
    then have "cumulative_before opts j \<noteq> NaN" by (rule running_not_NaN)
    with i(2) mono have "js_less r (cumulative_before opts j)"
      by (rule js_less_le_trans)
    with j(2) show False by simp
  qed
qed

text \<open>The running sums and totals of the examples.\<close>

lemma example_sums:
  "cumulative_before example_options 1 = Fin 1"
  "totalWeight example_options = Fin 4"
  using to_double_values
  by (simp_all add: cumulative_before_def totalWeight_def example_options_def)

lemma overflow_sums:
  "cumulative_before overflow_options 1 = Fin (2 ^ 1023)"
  "totalWeight overflow_options = PosInfinity"
  using to_double_1023
  by (simp_all add: cumulative_before_def totalWeight_def overflow_options_def)

lemma absorbed_sums:
  "cumulative_before absorbed_options 1 = Fin (2 ^ 53)"
  "cumulative_before absorbed_options 2 = Fin (2 ^ 53)"
  "totalWeight absorbed_options = Fin (2 ^ 53 + 2)"
  "totalWeight absorbed_twice = Fin (2 ^ 53)"
  using to_double_53
  by (simp_all add: cumulative_before_def totalWeight_def absorbed_options_def absorbed_twice_def)

text \<open>\<^verbatim>\<open>chosen\<close> after the loop is always one of the options of a non-empty array.\<close>

lemma select_option_walk: "walk r (Fin 0) opts = Some opt \<Longrightarrow> select_option r opts = Some opt"
  by (simp add: select_option_def)

lemma select_option_fallback:
  "opts \<noteq> [] \<Longrightarrow> walk r (Fin 0) opts = None \<Longrightarrow> select_option r opts = Some (hd opts)"
  by (cases opts) (simp_all add: select_option_def)

lemma select_option_in_set: "select_option r opts = Some chosen \<Longrightarrow> chosen \<in> set opts"
  by (auto simp: select_option_def split: option.splits list.splits dest: walk_in_set)

lemma select_option_some:
  assumes "opts \<noteq> []"
  shows "\<exists>i<length opts. select_option r opts = Some (opts ! i)"
proof (cases "walk r (Fin 0) opts")
  case None
  with assms have "select_option r opts = Some (opts ! 0)"
    by (simp add: select_option_fallback hd_conv_nth)
  with assms show ?thesis by (intro exI [of _ 0]) simp
next
  case (Some opt)
  then have "opt \<in> set opts" by (rule walk_in_set)
  then obtain i where "i < length opts" "opts ! i = opt" by (auto simp: in_set_conv_nth)
  with Some show ?thesis by (intro exI [of _ i]) (simp add: select_option_def)
qed

text \<open>
  The scaled draw of \<^verbatim>\<open>Math.random() = 0\<close> is 0, or \<open>NaN\<close> when the total is an infinity;
  in both cases the selection is the first option.
\<close>

lemma zero_draw_first:
  assumes "opts \<noteq> []" and "0 < weight (hd opts)" and "is_double (weight (hd opts))"
  shows "walk (Fin 0) (Fin 0) opts = Some (hd opts)"
proof -
  obtain opt rest where opts: "opts = opt # rest"
    using assms(1) by (cases opts) auto
  with assms(3) have "to_double (weight opt) = Fin (weight opt)"
    by (simp add: is_double_def)
  with assms(2) opts show ?thesis by simp
qed

lemma js_mul_zero: "js_mul (Fin 0) t = Fin 0 \<or> js_mul (Fin 0) t = NaN"
  by (cases t) (simp_all add: to_double_0)

lemma walk_NaN: "walk NaN c opts = None"
  by (induction opts arbitrary: c) simp_all

lemma zero_draw_selects_first:
  assumes "opts \<noteq> []" and "0 < weight (hd opts)" and "is_double (weight (hd opts))"
  shows "select_option (js_mul (Fin 0) (totalWeight opts)) opts = Some (hd opts)"
  using js_mul_zero [of "totalWeight opts"]
proof
  assume "js_mul (Fin 0) (totalWeight opts) = Fin 0"
  with zero_draw_first [OF assms] show ?thesis by (simp add: select_option_def)
next
  assume "js_mul (Fin 0) (totalWeight opts) = NaN"
  with assms(1) show ?thesis by (simp add: select_option_fallback walk_NaN)
qed

text \<open>
  The numbers of the examples are doubles, and the draws lie in the range of
  \<^verbatim>\<open>Math.random()\<close>.
\<close>

lemma example_numbers:
  "is_double 1" "is_double 2" "is_double 3" "is_double (2 ^ 53)" "is_double (2 ^ 1023)"
  "is_double (1 / 2)" "is_double last_draw" "0 \<le> last_draw" "last_draw < 1"
  using to_double_values to_double_53 to_double_1023 to_double_fractions
  by (simp_all add: is_double_def last_draw_def)

text \<open>
  Claim C3 as stated fails, for the running sums of the loop are rounded.  Take the
  options A (weight \<open>2 ^ 53\<close>), B (weight 1) and C (weight 2) and the largest draw,
  \<open>1 - 2 ^ -53\<close>.  The running sum after B is \<open>2 ^ 53 + 1\<close> rounded, which is \<open>2 ^ 53\<close>
  again; the total is \<open>2 ^ 53 + 2\<close>, and the scaled draw, rounded, is \<open>r = 2 ^ 53\<close>.  Among
  the sums of the weights over the reals, \<open>r\<close> lies in the interval of B, from \<open>2 ^ 53\<close>
  to \<open>2 ^ 53 + 1\<close>; but the running sum of the loop after B is not above \<open>r\<close>, and the
  selection is C.  With the options A (weight \<open>2 ^ 53\<close>), B and C (weight 1 each) the
  total is \<open>2 ^ 53\<close> and the scaled draw is \<open>r = 2 ^ 53 - 1\<close>, which is at least the total
  minus the last weight; the selection is A, the first option, not C, the last one.
\<close>

theorem select_option_interval_counterexample:
  "js_mul (Fin last_draw) (totalWeight absorbed_options) = Fin (2 ^ 53)
   \<and> js_less (Fin (2 ^ 53)) (totalWeight absorbed_options)
   \<and> 2 ^ 53 < ideal_before absorbed_options (length absorbed_options)
   \<and> ideal_before absorbed_options 1 \<le> 2 ^ 53
   \<and> 2 ^ 53 < ideal_before absorbed_options 1 + weight (absorbed_options ! 1)
   \<and> select_option (Fin (2 ^ 53)) absorbed_options = Some (absorbed_options ! 2)
   \<and> absorbed_options ! 2 \<noteq> absorbed_options ! 1
   \<and> totalWeight absorbed_twice = Fin (2 ^ 53)
   \<and> js_mul (Fin last_draw) (totalWeight absorbed_twice) = Fin (2 ^ 53 - 1)
   \<and> js_less (Fin (2 ^ 53 - 1)) (totalWeight absorbed_twice)
   \<and> 2 ^ 53 - weight (last absorbed_twice) \<le> 2 ^ 53 - 1
   \<and> select_option (Fin (2 ^ 53 - 1)) absorbed_twice = Some (hd absorbed_twice)
   \<and> hd absorbed_twice \<noteq> last absorbed_twice"
proof -
  have draw1: "js_mul (Fin last_draw) (totalWeight absorbed_options) = Fin (2 ^ 53)"
    using to_double_53(5) by (simp add: absorbed_sums last_draw_def)
  have below: "js_less (Fin (2 ^ 53)) (totalWeight absorbed_options)"
    by (simp add: absorbed_sums)
  have exact: "2 ^ 53 < ideal_before absorbed_options (length absorbed_options)"
    by (simp add: ideal_before_def absorbed_options_def)
  have ideal: "ideal_before absorbed_options 1 \<le> 2 ^ 53"
    "2 ^ 53 < ideal_before absorbed_options 1 + weight (absorbed_options ! 1)"
    by (simp_all add: ideal_before_def absorbed_options_def)
  have sel1: "select_option (Fin (2 ^ 53)) absorbed_options = Some (absorbed_options ! 2)"
    using to_double_53 by (simp add: select_option_def absorbed_options_def)
  have neq1: "absorbed_options ! 2 \<noteq> absorbed_options ! 1"
    by (simp add: absorbed_options_def)
  have total2: "totalWeight absorbed_twice = Fin (2 ^ 53)"
    by (rule absorbed_sums(4))
  have draw2: "js_mul (Fin last_draw) (totalWeight absorbed_twice) = Fin (2 ^ 53 - 1)"
    using to_double_53(4) by (simp add: absorbed_sums last_draw_def)
  have below2: "js_less (Fin (2 ^ 53 - 1)) (totalWeight absorbed_twice)"
    by (simp add: absorbed_sums)
  have range2: "2 ^ 53 - weight (last absorbed_twice) \<le> 2 ^ 53 - 1"
    by (simp add: absorbed_twice_def)
  have sel2: "select_option (Fin (2 ^ 53 - 1)) absorbed_twice = Some (hd absorbed_twice)"
    using to_double_53 by (simp add: select_option_def absorbed_twice_def)
  have neq2: "hd absorbed_twice \<noteq> last absorbed_twice"
    by (simp add: absorbed_twice_def)
  show ?thesis
    by (rule conjI [OF draw1 conjI [OF below conjI [OF exact conjI [OF ideal(1) conjI [OF ideal(2)
      conjI [OF sel1 conjI [OF neq1 conjI [OF total2 conjI [OF draw2 conjI [OF below2
      conjI [OF range2 conjI [OF sel2 neq2]]]]]]]]]]]])
qed

text \<open>
  Claim C3, as the code has it: the intervals are those of the running sums that the
  loop computes in double arithmetic.  For a non-empty sequence of options with positive
  weights and a scaled draw \<open>r\<close> with \<open>0 \<le> r < totalWeight\<close>, the selection returns the
  option at an index \<open>i\<close> such that \<open>r\<close> is not below \<^verbatim>\<open>cumulative\<close> as the loop reaches
  \<open>i\<close> and is below \<^verbatim>\<open>cumulative + opt.weight\<close> there; no earlier index has a running sum
  above \<open>r\<close> (the first match wins), and no other index has such an interval that
  contains \<open>r\<close>.  A draw of 0 selects the first option, when its weight is a double; a
  draw that is not below the running sum before the last option selects the last option.
\<close>

theorem select_option_interval:
  assumes "opts \<noteq> []" and "\<forall>opt\<in>set opts. 0 < weight opt"
    and "\<not> js_less r (Fin 0)" and "js_less r (totalWeight opts)"
  shows "(\<exists>i<length opts.
            select_option r opts = Some (opts ! i)
          \<and> \<not> js_less r (cumulative_before opts i)
          \<and> js_less r (js_add (cumulative_before opts i) (Fin (weight (opts ! i))))
          \<and> (\<forall>j<i. \<not> js_less r (js_add (cumulative_before opts j) (Fin (weight (opts ! j)))))
          \<and> (\<forall>j<length opts. \<not> js_less r (cumulative_before opts j)
                \<and> js_less r (js_add (cumulative_before opts j) (Fin (weight (opts ! j)))) \<longrightarrow> j = i))
       \<and> (r = Fin 0 \<and> is_double (weight (hd opts)) \<longrightarrow> select_option r opts = Some (hd opts))
       \<and> (\<not> js_less r (cumulative_before opts (length opts - 1))
            \<longrightarrow> select_option r opts = Some (last opts))"
proof -
  have nonneg: "\<forall>opt\<in>set opts. 0 \<le> weight opt"
    using assms(2) by (simp add: less_imp_le)
  from assms(4) have "walk r (Fin 0) opts \<noteq> None"
    by (simp add: falls_through_iff [OF assms(2,1)])
  then obtain opt where walk: "walk r (Fin 0) opts = Some opt" by (cases "walk r (Fin 0) opts") auto
  from walk_Some [OF walk] obtain i where i: "i < length opts" "opt = opts ! i"
    "js_less r (cumulative_before opts (Suc i))"
    "\<forall>j<i. \<not> js_less r (cumulative_before opts (Suc j))"
    by blast
  have sel: "select_option r opts = Some (opts ! i)"
    using walk i(2) by (simp add: select_option_walk)
  have lower: "\<not> js_less r (cumulative_before opts i)"
  proof (cases i)
    case 0
    with assms(3) show ?thesis by (simp add: cumulative_before_0)
  next
    case (Suc k)
    with i(4) show ?thesis by simp
  qed
  have upper: "js_less r (js_add (cumulative_before opts i) (Fin (weight (opts ! i))))"
    using i(3) by (simp add: cumulative_before_Suc [OF i(1)])
  have first: "\<forall>j<i. \<not> js_less r (js_add (cumulative_before opts j) (Fin (weight (opts ! j))))"
  proof (intro allI impI)
    fix j assume j: "j < i"
    with i(1) have "j < length opts" by simp
    then have eq: "cumulative_before opts (Suc j)
        = js_add (cumulative_before opts j) (Fin (weight (opts ! j)))"
      by (rule cumulative_before_Suc)
    from i(4) j have "\<not> js_less r (cumulative_before opts (Suc j))" by blast
    then show "\<not> js_less r (js_add (cumulative_before opts j) (Fin (weight (opts ! j))))"
      unfolding eq .
  qed
  have only: "j = i" if "j < length opts" "\<not> js_less r (cumulative_before opts j)"
    "js_less r (cumulative_before opts (Suc j))" for j
    using nonneg i(1,3,4) that by (rule interval_unique)
  have uniq: "\<forall>j<length opts. \<not> js_less r (cumulative_before opts j)
      \<and> js_less r (js_add (cumulative_before opts j) (Fin (weight (opts ! j)))) \<longrightarrow> j = i"
  proof (intro allI impI)
    fix j assume j: "j < length opts"
      and "\<not> js_less r (cumulative_before opts j)
        \<and> js_less r (js_add (cumulative_before opts j) (Fin (weight (opts ! j))))"
    then have "\<not> js_less r (cumulative_before opts j)" "js_less r (cumulative_before opts (Suc j))"
      by (simp_all add: cumulative_before_Suc [OF j])
    with j show "j = i" by (rule only)
  qed
  have zero: "select_option r opts = Some (hd opts)" if "r = Fin 0 \<and> is_double (weight (hd opts))"
  proof -
    have "0 < weight (hd opts)" using assms(1,2) by simp
    with that assms(1) have "walk r (Fin 0) opts = Some (hd opts)"
      by (simp add: zero_draw_first)
    then show ?thesis by (rule select_option_walk)
  qed
  have final: "select_option r opts = Some (last opts)"
    if "\<not> js_less r (cumulative_before opts (length opts - 1))"
  proof -
    let ?n = "length opts - 1"
    have n: "?n < length opts" "Suc ?n = length opts" using assms(1) by simp_all
    have "js_less r (cumulative_before opts (Suc ?n))"
      unfolding n(2) cumulative_before_length by (rule assms(4))
    with n(1) that have "?n = i" by (rule only)
    with sel assms(1) show ?thesis by (simp add: last_conv_nth)
  qed
  from i(1) sel lower upper first uniq zero final show ?thesis by blast
qed

theorem select_option_interval_witness:
  "(\<exists>i<length example_options.
      select_option (Fin 2) example_options = Some (example_options ! i)
    \<and> \<not> js_less (Fin 2) (cumulative_before example_options i)
    \<and> js_less (Fin 2) (js_add (cumulative_before example_options i) (Fin (weight (example_options ! i))))
    \<and> (\<forall>j<i. \<not> js_less (Fin 2)
          (js_add (cumulative_before example_options j) (Fin (weight (example_options ! j)))))
    \<and> (\<forall>j<length example_options. \<not> js_less (Fin 2) (cumulative_before example_options j)
          \<and> js_less (Fin 2)
              (js_add (cumulative_before example_options j) (Fin (weight (example_options ! j))))
          \<longrightarrow> j = i))
   \<and> select_option (Fin 2) example_options = Some \<lparr>label = ''B'', weight = 3\<rparr>
   \<and> select_option (Fin 0) example_options = Some \<lparr>label = ''A'', weight = 1\<rparr>"
proof -
  have h1: "example_options \<noteq> []" by (simp add: example_options_def)
  have h2: "\<forall>opt\<in>set example_options. 0 < weight opt" by (simp add: example_options_def)
  have h3: "\<not> js_less (Fin 2) (Fin 0)" by simp
  have h4: "js_less (Fin 2) (totalWeight example_options)" by (simp add: example_sums)
  have len: "length example_options - 1 = 1" by (simp add: example_options_def)
  have h5: "\<not> js_less (Fin 2) (cumulative_before example_options (length example_options - 1))"
    unfolding len example_sums(1) by simp
  note all = select_option_interval [OF h1 h2 h3 h4]
  from all have found: "\<exists>i<length example_options.
      select_option (Fin 2) example_options = Some (example_options ! i)
    \<and> \<not> js_less (Fin 2) (cumulative_before example_options i)
    \<and> js_less (Fin 2) (js_add (cumulative_before example_options i) (Fin (weight (example_options ! i))))
    \<and> (\<forall>j<i. \<not> js_less (Fin 2)
          (js_add (cumulative_before example_options j) (Fin (weight (example_options ! j)))))
    \<and> (\<forall>j<length example_options. \<not> js_less (Fin 2) (cumulative_before example_options j)
          \<and> js_less (Fin 2)
              (js_add (cumulative_before example_options j) (Fin (weight (example_options ! j))))
          \<longrightarrow> j = i)"
    by (rule conjunct1)
  have "select_option (Fin 2) example_options = Some (last example_options)"
    by (rule mp [OF conjunct2 [OF conjunct2 [OF all]] h5])
  then have final: "select_option (Fin 2) example_options = Some \<lparr>label = ''B'', weight = 3\<rparr>"
    by (simp add: example_options_def)
  have z3: "\<not> js_less (Fin 0) (Fin 0)" by simp
  have z4: "js_less (Fin 0) (totalWeight example_options)" by (simp add: example_sums)
  have z5: "Fin 0 = Fin 0 \<and> is_double (weight (hd example_options))"
    by (simp add: example_options_def is_double_def to_double_values)
  have "select_option (Fin 0) example_options = Some (hd example_options)"
    by (rule mp [OF conjunct1 [OF conjunct2 [OF select_option_interval [OF h1 h2 z3 z4]]] z5])
  then have zero: "select_option (Fin 0) example_options = Some \<lparr>label = ''A'', weight = 1\<rparr>"
    by (simp add: example_options_def)
  show ?thesis by (rule conjI [OF found conjI [OF final zero]])
qed

text \<open>
  Claim C2, as the code has it.  For a non-empty sequence with positive weights the walk
  falls through exactly when \<^verbatim>\<open>r < totalWeight\<close> is false for the total that \<^verbatim>\<open>reduce\<close>
  computes; the selection is then the first option of the sequence; and for every \<open>r\<close>
  the selection is one of the options.
\<close>

theorem fall_through_selects_first:
  assumes "opts \<noteq> []" and "\<forall>opt\<in>set opts. 0 < weight opt"
  shows "(walk r (Fin 0) opts = None) = (\<not> js_less r (totalWeight opts))
       \<and> (\<not> js_less r (totalWeight opts) \<longrightarrow> select_option r opts = Some (hd opts))
       \<and> (\<exists>i<length opts. select_option r opts = Some (opts ! i))"
proof -
  have iff: "(walk r (Fin 0) opts = None) = (\<not> js_less r (totalWeight opts))"
    using assms(2,1) by (rule falls_through_iff)
  have fallback: "select_option r opts = Some (hd opts)" if "\<not> js_less r (totalWeight opts)"
    using that assms(1) iff by (simp add: select_option_fallback)
  from iff fallback select_option_some [OF assms(1)] show ?thesis by blast
qed

theorem fall_through_selects_first_witness:
  "\<not> js_less PosInfinity (totalWeight overflow_options)
   \<and> walk PosInfinity (Fin 0) overflow_options = None
   \<and> select_option PosInfinity overflow_options = Some \<lparr>label = ''A'', weight = 2 ^ 1023\<rparr>
   \<and> (\<exists>i<length overflow_options. select_option PosInfinity overflow_options = Some (overflow_options ! i))"
proof -
  have h1: "overflow_options \<noteq> []" by (simp add: overflow_options_def)
  have h2: "\<forall>opt\<in>set overflow_options. 0 < weight opt" by (simp add: overflow_options_def)
  have h3: "\<not> js_less PosInfinity (totalWeight overflow_options)" by (simp add: overflow_sums)
  note all = fall_through_selects_first [OF h1 h2, of PosInfinity]
  have none: "walk PosInfinity (Fin 0) overflow_options = None"
    by (rule iffD2 [OF conjunct1 [OF all] h3])
  have "select_option PosInfinity overflow_options = Some (hd overflow_options)"
    by (rule mp [OF conjunct1 [OF conjunct2 [OF all]] h3])
  then have first: "select_option PosInfinity overflow_options = Some \<lparr>label = ''A'', weight = 2 ^ 1023\<rparr>"
    by (simp add: overflow_options_def)
  from all have some: "\<exists>i<length overflow_options.
      select_option PosInfinity overflow_options = Some (overflow_options ! i)"
    by (rule conjunct2 [OF conjunct2])
  show ?thesis by (rule conjI [OF h3 conjI [OF none conjI [OF first some]]])
qed

subsection \<open>Identifiers and routes\<close>

lemma digit36_id_char: "id_char (digit36 d)"
proof -
  have "d mod 36 < 36" by simp
  then have "digit36 d \<in> set ''0123456789abcdefghijklmnopqrstuvwxyz''"
    unfolding digit36_def by (intro nth_mem) simp
  then show ?thesis unfolding id_char_def by auto
qed

lemma digit36_cases: "digit36 d \<in> set ''0123456789abcdefghijklmnopqrstuvwxyz''"
proof -
  have "d mod 36 < 36" by simp
  then show ?thesis unfolding digit36_def by (intro nth_mem) simp
qed

lemma generateId_digits: "generateId ds = map digit36 (take 8 ds)"
  by (cases ds) (simp_all add: generateId_def toString36_def substring_def take_map)

lemma generateId_length: "length (generateId ds) \<le> 8"
  by (simp add: generateId_digits)

lemma generateId_chars: "c \<in> set (generateId ds) \<Longrightarrow> c \<in> set ''0123456789abcdefghijklmnopqrstuvwxyz''"
  unfolding generateId_digits using digit36_cases by (auto simp del: set_simps)

lemma generateId_id_chars: "list_all id_char (generateId ds)"
  by (simp add: generateId_digits list_all_iff digit36_id_char)

lemma generateId_not_inherited: "generateId ds \<notin> set Object_prototype"
proof
  assume "generateId ds \<in> set Object_prototype"
  then consider "8 < length (generateId ds)"
    | "CHR ''S'' \<in> set (generateId ds)" | "CHR ''O'' \<in> set (generateId ds)"
    unfolding Object_prototype_def by auto
  then show False
  proof cases
    case 1
    with generateId_length [of ds] show False by simp
  next
    case 2 then show False using generateId_chars by fastforce
  next
    case 3 then show False using generateId_chars by fastforce
  qed
qed

lemma wheels_get_generated:
  "(wheels_get wheels (generateId ds) = Missing) = (wheels (generateId ds) = None)"
  using generateId_not_inherited [of ds] by (simp add: wheels_get_def split: option.splits)

lemma wheels_get_Own: "wheels i = Some w \<Longrightarrow> wheels_get wheels i = Own w"
  by (simp add: wheels_get_def)

lemma wheels_get_Own_iff: "(wheels_get wheels i = Own w) = (wheels i = Some w)"
  by (auto simp: wheels_get_def split: option.splits)

lemma wheels_get_Missing: "wheels_get wheels i = Missing \<Longrightarrow> wheels i = None"
  by (simp add: wheels_get_def split: option.splits if_splits)

lemma strip_prefix_append: "strip_prefix p (p @ s) = Some s"
  by (induction p) simp_all

lemma strip_prefix_Some: "strip_prefix p s = Some t \<Longrightarrow> s = p @ t"
  by (induction p s rule: strip_prefix.induct) (auto split: if_splits)

lemma match_route_plain: "route_id i \<Longrightarrow> match_route [] (''/api/wheel/'' @ i) = Some i"
proof -
  assume "route_id i"
  then have i: "i \<noteq> []" "takeWhile id_char i = i"
    by (simp_all add: route_id_def list_all_iff takeWhile_eq_all_conv)
  have sp: "strip_prefix ''/api/wheel/'' (''/api/wheel/'' @ i) = Some i"
    by (rule strip_prefix_append)
  show ?thesis
    unfolding match_route_def sp using i(1)
    by (simp only: i(2) strip_prefix.simps option.case if_False)
qed

lemma match_route_suffix:
  assumes "route_id i" and "\<not> id_char c"
  shows "match_route (c # sfx) (''/api/wheel/'' @ i @ (c # sfx) @ tl0) = Some i"
    and "match_route [] (''/api/wheel/'' @ i @ (c # sfx) @ tl0) = Some i"
proof -
  from assms have i: "i \<noteq> []" "\<And>x. x \<in> set i \<Longrightarrow> id_char x"
    by (simp_all add: route_id_def list_all_iff)
  have tw: "takeWhile id_char (i @ (c # sfx) @ tl0) = i"
    using i(2) assms(2) by (simp add: takeWhile_append2)
  have dw: "dropWhile id_char (i @ (c # sfx) @ tl0) = (c # sfx) @ tl0"
    using i(2) assms(2) by (simp add: dropWhile_append2)
  have sp: "strip_prefix ''/api/wheel/'' (''/api/wheel/'' @ i @ (c # sfx) @ tl0) = Some (i @ (c # sfx) @ tl0)"
    by (rule strip_prefix_append)
  have sp2: "strip_prefix (c # sfx) ((c # sfx) @ tl0) = Some tl0"
    by (rule strip_prefix_append)
  show "match_route (c # sfx) (''/api/wheel/'' @ i @ (c # sfx) @ tl0) = Some i"
    unfolding match_route_def sp using i(1) by (simp only: tw dw sp2 option.case if_False)
  show "match_route [] (''/api/wheel/'' @ i @ (c # sfx) @ tl0) = Some i"
    unfolding match_route_def sp using i(1) by (simp only: tw dw strip_prefix.simps option.case if_False)
qed

lemma match_route_shadow: "match_route sfx p = Some i \<Longrightarrow> match_route [] p = Some i"
  by (auto simp: match_route_def split: option.splits if_splits)

lemma match_route_id: "match_route sfx p = Some i \<Longrightarrow> route_id i"
  by (auto simp: match_route_def route_id_def list_all_iff split: option.splits if_splits dest: set_takeWhileD)

lemma slash_not_id_char: "\<not> id_char CHR ''/''"
  by (simp add: id_char_def)

lemma handleApi_create:
  "handleApi rt \<lparr>http_method = ''POST'', pathname = ''/api/wheels'', parsed_body = b\<rparr> wheels
     = create_wheel rt b wheels"
  by (simp add: handleApi_def)

lemma handleApi_fetch:
  "route_id i \<Longrightarrow>
   handleApi rt \<lparr>http_method = ''GET'', pathname = ''/api/wheel/'' @ i, parsed_body = b\<rparr> wheels
     = (fetch_wheel wheels i, wheels)"
  using match_route_plain [of i] by (simp add: handleApi_def)

lemma handleApi_results:
  "route_id i \<Longrightarrow>
   handleApi rt \<lparr>http_method = ''GET'', pathname = ''/api/wheel/'' @ i @ ''/results'', parsed_body = b\<rparr> wheels
     = (fetch_wheel wheels i, wheels)"
  using match_route_suffix(2) [of i "CHR ''/''" "''results''" "[]"] slash_not_id_char
  by (simp add: handleApi_def)

lemma handleApi_spin:
  "route_id i \<Longrightarrow>
   handleApi rt \<lparr>http_method = ''POST'', pathname = ''/api/wheel/'' @ i @ ''/spin'', parsed_body = b\<rparr> wheels
     = record_spin rt i b wheels"
  using match_route_suffix(1) [of i "CHR ''/''" "''spin''" "[]"] slash_not_id_char
  by (simp add: handleApi_def route_id_def)

subsection \<open>Validation and the retry loop\<close>

lemma sanitise_entries:
  "sanitise rt (map entry raw) acc =
     (if list_all valid_entry raw then Inr (acc @ map stored_option raw) else Inl invalid_option)"
proof (induction raw arbitrary: acc)
  case Nil
  then show ?case by simp
next
  case (Cons e raw)
  show ?case
  proof (cases "valid_entry e")
    case True
    then have "sanitise rt (map entry (e # raw)) acc = sanitise rt (map entry raw) (acc @ [stored_option e])"
      by (simp add: entry_def valid_entry_def stored_option_def)
    with True show ?thesis by (simp add: Cons.IH)
  next
    case False
    then have "sanitise rt (map entry (e # raw)) acc = Inl invalid_option"
      by (auto simp: entry_def valid_entry_def)
    with False show ?thesis by simp
  qed
qed

lemma sanitise_outcome: "sanitise rt es acc = Inl out \<Longrightarrow> out = Uncaught \<or> out = invalid_option"
  by (induction es arbitrary: acc) (auto split: option.splits jsnum.splits if_splits)

lemma allocate_generated: "\<exists>k. allocate wheels draws i = generateId (draws k)"
proof (induction wheels draws i rule: allocate.induct)
  case (1 wheels draws i)
  show ?case
  proof (cases "wheels_get wheels (generateId (draws i)) \<noteq> Missing \<and> i + 1 < 5")
    case True
    with "1.IH" [OF refl] obtain k where "allocate wheels draws (i + 1) = generateId (draws k)"
      by blast
    with True show ?thesis
      by (subst allocate.simps) (auto simp: Let_def)
  next
    case False
    then have "allocate wheels draws i = generateId (draws i)"
      by (subst allocate.simps) (auto simp: Let_def)
    then show ?thesis by blast
  qed
qed

lemma allocate_route_chars: "list_all id_char (allocate wheels draws i)"
  using allocate_generated [of wheels draws i] generateId_id_chars by auto

lemma allocate_Missing:
  "(wheels_get wheels (allocate wheels draws i) = Missing) = (wheels (allocate wheels draws i) = None)"
  using allocate_generated [of wheels draws i] wheels_get_generated by auto

lemma allocate_first_free:
  "k < 5 \<Longrightarrow> i \<le> k \<Longrightarrow> wheels (generateId (draws k)) = None \<Longrightarrow>
   (\<forall>j. i \<le> j \<and> j < k \<longrightarrow> wheels (generateId (draws j)) \<noteq> None) \<Longrightarrow>
   allocate wheels draws i = generateId (draws k)"
proof (induction wheels draws i rule: allocate.induct)
  case (1 wheels draws i)
  show ?case
  proof (cases "i = k")
    case True
    with "1.prems" show ?thesis
      by (subst allocate.simps) (simp add: wheels_get_generated)
  next
    case False
    with "1.prems" have lt: "i < k" and taken: "wheels (generateId (draws i)) \<noteq> None"
      by simp_all
    then have step: "wheels_get wheels (generateId (draws i)) \<noteq> Missing" "i + 1 < 5"
      using "1.prems"(1) by (simp_all add: wheels_get_generated)
    have "allocate wheels draws (i + 1) = generateId (draws k)"
      using "1.prems" lt by (intro "1.IH" [OF refl step]) simp_all
    with step show ?thesis
      by (subst allocate.simps) (simp add: Let_def)
  qed
qed

lemma allocate_exhausted:
  "i < 5 \<Longrightarrow> (\<forall>j. i \<le> j \<and> j < 5 \<longrightarrow> wheels (generateId (draws j)) \<noteq> None) \<Longrightarrow>
   allocate wheels draws i = generateId (draws 4)"
proof (induction wheels draws i rule: allocate.induct)
  case (1 wheels draws i)
  from "1.prems" have taken: "wheels_get wheels (generateId (draws i)) \<noteq> Missing"
    by (simp add: wheels_get_generated)
  show ?case
  proof (cases "i + 1 < 5")
    case True
    have "allocate wheels draws (i + 1) = generateId (draws 4)"
      using "1.prems" True by (intro "1.IH" [OF refl taken True]) simp_all
    with taken True show ?thesis
      by (subst allocate.simps) (simp add: Let_def)
  next
    case False
    with "1.prems"(1) have "i = 4" by simp
    with taken show ?thesis
      by (subst allocate.simps) (simp add: Let_def)
  qed
qed

lemma allocate_cong:
  "\<forall>k<5. draws' k = draws k \<Longrightarrow> i < 5 \<Longrightarrow> allocate wheels draws' i = allocate wheels draws i"
proof (induction wheels draws i rule: allocate.induct)
  case (1 wheels draws i)
  from "1.prems" have same: "draws' i = draws i" by simp
  show ?case
  proof (cases "wheels_get wheels (generateId (draws i)) \<noteq> Missing \<and> i + 1 < 5")
    case True
    then have "allocate wheels draws' (i + 1) = allocate wheels draws (i + 1)"
      using "1.prems" by (intro "1.IH" [OF refl]) simp_all
    with True same show ?thesis
      by (subst allocate.simps, subst (2) allocate.simps) (simp add: Let_def)
  next
    case False
    with same show ?thesis
      by (subst allocate.simps, subst (2) allocate.simps) (auto simp: Let_def)
  qed
qed

lemma sanitise_pointwise:
  "sanitise rt es acc = Inr opts \<Longrightarrow> \<exists>new. opts = acc @ new \<and> list_all2 (accepted_as rt) es new"
proof (induction es arbitrary: acc)
  case Nil
  then show ?case by simp
next
  case (Cons e es)
  from Cons.prems obtain l w x where step:
      "get_prop e ''label'' = Some l" "get_prop e ''weight'' = Some w"
      "Number_js rt w = Some (Fin x)" "trimmed_string l \<noteq> []" "0 < x"
      "sanitise rt es (acc @ [\<lparr>label = trimmed_string l, weight = x\<rparr>]) = Inr opts"
    by (auto split: option.splits jsnum.splits if_splits)
  from Cons.IH [OF step(6)] obtain new
    where new: "opts = (acc @ [\<lparr>label = trimmed_string l, weight = x\<rparr>]) @ new"
      "list_all2 (accepted_as rt) es new"
    by blast
  have "accepted_as rt e \<lparr>label = trimmed_string l, weight = x\<rparr>"
    using step(1-5) by (simp add: accepted_as_def)
  with new show ?case
    by (intro exI [of _ "\<lparr>label = trimmed_string l, weight = x\<rparr> # new"]) simp
qed

lemma Number_js_draws: "Number_js (rt\<lparr>random_digits := draws\<rparr>) v = Number_js rt v"
  by (cases v) simp_all

lemma sanitise_draws: "sanitise (rt\<lparr>random_digits := draws\<rparr>) es acc = sanitise rt es acc"
  by (induction es arbitrary: acc)
    (auto simp: Number_js_draws split: option.splits jsnum.splits)

lemma create_wheel_accepted:
  assumes "truthy payload" and "get_prop payload ''options'' = Some (JArr es)" and "es \<noteq> []"
    and "sanitise rt es [] = Inr opts"
  shows "create_wheel rt (Some payload) wheels =
     (if wheels (allocate wheels (random_digits rt) 0) = None then
        (created (allocate wheels (random_digits rt) 0),
         wheels(allocate wheels (random_digits rt) 0 \<mapsto>
           new_wheel (allocate wheels (random_digits rt) 0) opts))
      else (Respond 500 (ErrorBody ''Could not allocate id''), wheels))"
  using assms
  by (simp add: create_wheel_def allocate_Missing Let_def created_def new_wheel_def)

lemma post_wheels_eq:
  "handleApi rt (post_wheels payload) wheels = create_wheel rt (Some payload) wheels"
  by (simp add: post_wheels_def handleApi_create)

lemma create_wheel_submitted:
  assumes "raw \<noteq> []" and "list_all valid_entry raw"
  shows "create_wheel rt (Some (submitted raw)) wheels =
     (if wheels (allocate wheels (random_digits rt) 0) = None then
        (created (allocate wheels (random_digits rt) 0),
         wheels(allocate wheels (random_digits rt) 0 \<mapsto>
           new_wheel (allocate wheels (random_digits rt) 0) (map stored_option raw)))
      else (Respond 500 (ErrorBody ''Could not allocate id''), wheels))"
proof (rule create_wheel_accepted)
  show "truthy (submitted raw)" by (simp add: submitted_def)
  show "get_prop (submitted raw) ''options'' = Some (JArr (map entry raw))"
    by (simp add: submitted_def)
  show "map entry raw \<noteq> []" using assms(1) by simp
  show "sanitise rt (map entry raw) [] = Inr (map stored_option raw)"
    using assms(2) by (simp add: sanitise_entries)
qed

subsection \<open>Creating a wheel and reading it back\<close>

lemma generateId_example: "generateId [10, 11, 12] = ''abc''" "generateId [13, 14, 15] = ''def''"
  by (simp_all add: generateId_def toString36_def substring_def digit36_def)

lemma generateId_zero: "generateId [] = ''''"
  by (simp add: generateId_def toString36_def substring_def)

lemma create_request_eq:
  "handleApi rt (create_request raw) wheels = create_wheel rt (Some (submitted raw)) wheels"
  by (simp add: create_request_def post_wheels_eq)

text \<open>
  When a create request with a non-empty sequence of valid entries (label not empty
  after trimming, weight positive) is answered with 201 and the id \<open>i\<close>, then
  \<open>i\<close> was not a key of the registry before; the registry afterwards is the old one with
  \<open>i\<close> bound to a wheel that has the id \<open>i\<close>, no results, and as options the submitted
  entries with trimmed labels in the submitted order; and reading that wheel returns
  exactly these options, also through the route \<^verbatim>\<open>GET /api/wheel/i\<close> when \<open>i\<close> is not the
  empty string (the route pattern needs one character; \<^verbatim>\<open>generateId\<close> gives the empty
  string only for a draw of exactly 0).
\<close>

lemma create_then_describe:
  assumes "raw \<noteq> []" and "\<forall>e\<in>set raw. valid_entry e"
    and "handleApi rt (create_request raw) wheels = (Respond 201 (CreatedBody i link rlink), wheels')"
  shows "wheels i = None
       \<and> wheels' = wheels(i \<mapsto> \<lparr>wheel_id = i, options = map stored_option raw, results = []\<rparr>)
       \<and> fetch_wheel wheels' i = Respond 200 (WheelBody i (map stored_option raw))
       \<and> (i \<noteq> [] \<longrightarrow>
            handleApi rt' \<lparr>http_method = ''GET'', pathname = ''/api/wheel/'' @ i, parsed_body = b\<rparr> wheels'
              = (Respond 200 (WheelBody i (map stored_option raw)), wheels'))"
proof -
  let ?ident = "allocate wheels (random_digits rt) 0"
  have valid: "list_all valid_entry raw"
    using assms(2) by (simp add: list_all_iff)
  have run: "create_wheel rt (Some (submitted raw)) wheels = (Respond 201 (CreatedBody i link rlink), wheels')"
    using assms(3) by (simp add: create_request_eq)
  have free: "wheels ?ident = None"
    using run unfolding create_wheel_submitted [OF assms(1) valid] by (auto split: if_splits)
  then have "(created ?ident, wheels(?ident \<mapsto> new_wheel ?ident (map stored_option raw)))
      = (Respond 201 (CreatedBody i link rlink), wheels')"
    using run unfolding create_wheel_submitted [OF assms(1) valid] by simp
  then have i: "i = ?ident"
    and stored: "wheels' = wheels(i \<mapsto> \<lparr>wheel_id = i, options = map stored_option raw, results = []\<rparr>)"
    by (auto simp: created_def new_wheel_def)
  have fetch: "fetch_wheel wheels' i = Respond 200 (WheelBody i (map stored_option raw))"
    by (simp add: stored fetch_wheel_def wheels_get_def)
  have "handleApi rt' \<lparr>http_method = ''GET'', pathname = ''/api/wheel/'' @ i, parsed_body = b\<rparr> wheels'
      = (Respond 200 (WheelBody i (map stored_option raw)), wheels')" if "i \<noteq> []"
  proof -
    have "route_id i"
      using that allocate_route_chars [of wheels "random_digits rt" 0] by (simp add: route_id_def i)
    then show ?thesis
      using handleApi_fetch [of i rt' b wheels'] fetch by simp
  qed
  with free i stored fetch show ?thesis by blast
qed

lemma create_then_describe_example:
  "handleApi example_runtime (create_request [(''  Prize '', 1), (''Nothing'', 9)]) Map.empty
     = (Respond 201 (CreatedBody ''abc'' ''/wheel.html?id=abc'' ''/results.html?id=abc''),
        [''abc'' \<mapsto> \<lparr>wheel_id = ''abc'',
           options = [\<lparr>label = ''Prize'', weight = 1\<rparr>, \<lparr>label = ''Nothing'', weight = 9\<rparr>],
           results = []\<rparr>])
   \<and> handleApi example_runtime
        \<lparr>http_method = ''GET'', pathname = ''/api/wheel/abc'', parsed_body = None\<rparr>
        [''abc'' \<mapsto> \<lparr>wheel_id = ''abc'',
           options = [\<lparr>label = ''Prize'', weight = 1\<rparr>, \<lparr>label = ''Nothing'', weight = 9\<rparr>],
           results = []\<rparr>]
     = (Respond 200 (WheelBody ''abc''
          [\<lparr>label = ''Prize'', weight = 1\<rparr>, \<lparr>label = ''Nothing'', weight = 9\<rparr>]),
        [''abc'' \<mapsto> \<lparr>wheel_id = ''abc'',
           options = [\<lparr>label = ''Prize'', weight = 1\<rparr>, \<lparr>label = ''Nothing'', weight = 9\<rparr>],
           results = []\<rparr>])"
proof -
  let ?raw = "[(''  Prize '', 1), (''Nothing'', 9)] :: (string \<times> real) list"
  let ?opts = "[\<lparr>label = ''Prize'', weight = 1\<rparr>, \<lparr>label = ''Nothing'', weight = 9\<rparr>]"
  let ?after = "[''abc'' \<mapsto> \<lparr>wheel_id = ''abc'', options = ?opts, results = []\<rparr>]"
  have h1: "?raw \<noteq> []" by simp
  have h2: "\<forall>e\<in>set ?raw. valid_entry e"
    by (simp add: valid_entry_def trim_def is_space_def)
  have ident: "allocate Map.empty (random_digits example_runtime) 0 = ''abc''"
    using allocate_first_free [of 0 0 Map.empty "random_digits example_runtime"]
    by (simp add: example_runtime_def generateId_example)
  have stored: "map stored_option ?raw = ?opts"
    by (simp add: stored_option_def trim_def is_space_def)
  have h3: "handleApi example_runtime (create_request ?raw) Map.empty
      = (Respond 201 (CreatedBody ''abc'' ''/wheel.html?id=abc'' ''/results.html?id=abc''), ?after)"
  proof -
    have valid: "list_all valid_entry ?raw" using h2 by (simp add: list_all_iff)
    show ?thesis
      unfolding create_request_eq create_wheel_submitted [OF h1 valid] ident stored
      by (simp add: created_def new_wheel_def)
  qed
  have "''abc'' \<noteq> ([] :: string)" by simp
  with create_then_describe [OF h1 h2 h3, of example_runtime None]
  have "handleApi example_runtime
          \<lparr>http_method = ''GET'', pathname = ''/api/wheel/'' @ ''abc'', parsed_body = None\<rparr> ?after
      = (Respond 200 (WheelBody ''abc'' (map stored_option ?raw)), ?after)"
    by blast
  then have "handleApi example_runtime
          \<lparr>http_method = ''GET'', pathname = ''/api/wheel/abc'', parsed_body = None\<rparr> ?after
      = (Respond 200 (WheelBody ''abc'' ?opts), ?after)"
    unfolding stored by simp
  with h3 show ?thesis by (rule conjI)
qed

text \<open>
  The same for every body, whatever the entries are: when a create request is answered
  with 201, the body has an array of options, the stored options are, entry by entry and
  in the same order, the trimmed label and the value of \<^verbatim>\<open>Number(weight)\<close>, and every
  entry was valid.
\<close>

lemma every_created_wheel:
  assumes "handleApi rt (post_wheels payload) wheels = (Respond 201 (CreatedBody i link rlink), wheels')"
  shows "\<exists>es opts. get_prop payload ''options'' = Some (JArr es)
       \<and> list_all2 (accepted_as rt) es opts
       \<and> wheels i = None
       \<and> wheels' = wheels(i \<mapsto> \<lparr>wheel_id = i, options = opts, results = []\<rparr>)"
proof -
  have run: "create_wheel rt (Some payload) wheels = (Respond 201 (CreatedBody i link rlink), wheels')"
    using assms by (simp add: post_wheels_eq)
  then have t: "truthy payload"
    by (auto simp: create_wheel_def options_required_def split: if_splits)
  from run t obtain es where es: "get_prop payload ''options'' = Some (JArr es)" "es \<noteq> []"
    by (auto simp: create_wheel_def options_required_def split: option.splits jsval.splits if_splits)
  from run t es obtain opts where opts: "sanitise rt es [] = Inr opts"
    by (cases "sanitise rt es []")
      (auto simp: create_wheel_def invalid_option_def dest!: sanitise_outcome)
  let ?ident = "allocate wheels (random_digits rt) 0"
  note accepted = create_wheel_accepted [OF t es opts, of wheels]
  have free: "wheels ?ident = None"
    using run unfolding accepted by (auto split: if_splits)
  then have "(created ?ident, wheels(?ident \<mapsto> new_wheel ?ident opts))
      = (Respond 201 (CreatedBody i link rlink), wheels')"
    using run unfolding accepted by simp
  then have "i = ?ident"
    and "wheels' = wheels(i \<mapsto> \<lparr>wheel_id = i, options = opts, results = []\<rparr>)"
    by (auto simp: created_def new_wheel_def)
  moreover from sanitise_pointwise [OF opts] have "list_all2 (accepted_as rt) es opts"
    by simp
  ultimately show ?thesis using es(1) free by blast
qed

text \<open>
  Claim C5 says that the wheel of a successful create is described under its id
  immediately afterwards.  When \<^verbatim>\<open>Math.random()\<close> returns 0, \<^verbatim>\<open>generateId\<close> gives the empty
  string: \<^verbatim>\<open>(0).toString(36)\<close> is \<^verbatim>\<open>"0"\<close>, which has no character at position 2.  The
  empty key is free, so the create is answered with 201 and the id \<^verbatim>\<open>""\<close>, and the wheel
  is stored under that key.  The request that describes it, \<^verbatim>\<open>GET /api/wheel/\<close>, is not
  matched by the route pattern, whose group needs one character: the API does not
  handle it, and the wheel cannot be read.
\<close>

theorem empty_id_not_described:
  "handleApi zero_runtime (create_request [(''A'', 1)]) Map.empty
     = (Respond 201 (CreatedBody '''' ''/wheel.html?id='' ''/results.html?id=''),
        ['''' \<mapsto> \<lparr>wheel_id = '''', options = [\<lparr>label = ''A'', weight = 1\<rparr>], results = []\<rparr>])
   \<and> handleApi zero_runtime
        \<lparr>http_method = ''GET'', pathname = ''/api/wheel/'' @ '''', parsed_body = None\<rparr>
        ['''' \<mapsto> \<lparr>wheel_id = '''', options = [\<lparr>label = ''A'', weight = 1\<rparr>], results = []\<rparr>]
     = (NotHandled,
        ['''' \<mapsto> \<lparr>wheel_id = '''', options = [\<lparr>label = ''A'', weight = 1\<rparr>], results = []\<rparr>])"
proof -
  let ?raw = "[(''A'', 1)] :: (string \<times> real) list"
  let ?after = "['''' \<mapsto> \<lparr>wheel_id = '''', options = [\<lparr>label = ''A'', weight = 1\<rparr>], results = []\<rparr>]"
  have nonempty: "?raw \<noteq> []" by simp
  have valid: "list_all valid_entry ?raw"
    by (simp add: valid_entry_def trim_def is_space_def)
  have stored: "map stored_option ?raw = [\<lparr>label = ''A'', weight = 1\<rparr>]"
    by (simp add: stored_option_def trim_def is_space_def)
  have ident: "allocate Map.empty (random_digits zero_runtime) 0 = ''''"
    using allocate_first_free [of 0 0 Map.empty "random_digits zero_runtime"]
    by (simp add: zero_runtime_def example_runtime_def generateId_zero)
  have create: "handleApi zero_runtime (create_request ?raw) Map.empty
     = (Respond 201 (CreatedBody '''' ''/wheel.html?id='' ''/results.html?id=''), ?after)"
    unfolding create_request_eq create_wheel_submitted [OF nonempty valid] ident stored
    by (simp add: created_def new_wheel_def)
  have describe: "handleApi zero_runtime
        \<lparr>http_method = ''GET'', pathname = ''/api/wheel/'' @ '''', parsed_body = None\<rparr> ?after
     = (NotHandled, ?after)"
    by (simp add: handleApi_def match_route_def)
  from create describe show ?thesis by (rule conjI)
qed

subsection \<open>The retry bound, duplicate labels, malformed entries\<close>

text \<open>
  Claim C8.  For a create request whose body passes the validation loop:
  if each of the first five generated ids is a key of the registry, the answer is 500
  \<^verbatim>\<open>Could not allocate id\<close> and the registry is unchanged;
  if the \<open>k\<close>-th generated id (\<open>k < 5\<close>) is not a key while all earlier ones are, that id
  is used: the answer is 201 with it and the wheel is stored under it;
  and the answer does not depend on any draw after the fifth, so at most five ids
  are generated.
\<close>

theorem allocation_at_most_five:
  assumes "truthy payload" and "get_prop payload ''options'' = Some (JArr es)" and "es \<noteq> []"
    and "sanitise rt es [] = Inr opts"
  shows "((\<forall>k<5. wheels (generateId (random_digits rt k)) \<noteq> None) \<longrightarrow>
            handleApi rt (post_wheels payload) wheels
              = (Respond 500 (ErrorBody ''Could not allocate id''), wheels))
       \<and> (\<forall>k<5. wheels (generateId (random_digits rt k)) = None
              \<and> (\<forall>j<k. wheels (generateId (random_digits rt j)) \<noteq> None) \<longrightarrow>
            handleApi rt (post_wheels payload) wheels
              = (created (generateId (random_digits rt k)),
                 wheels(generateId (random_digits rt k) \<mapsto>
                   new_wheel (generateId (random_digits rt k)) opts)))
       \<and> ((\<forall>k<5. draws k = random_digits rt k) \<longrightarrow>
            handleApi (rt\<lparr>random_digits := draws\<rparr>) (post_wheels payload) wheels
              = handleApi rt (post_wheels payload) wheels)"
proof -
  note run = create_wheel_accepted [OF assms]
  have exhausted: "handleApi rt (post_wheels payload) wheels
      = (Respond 500 (ErrorBody ''Could not allocate id''), wheels)"
    if taken: "\<forall>k<5. wheels (generateId (random_digits rt k)) \<noteq> None"
  proof -
    have "allocate wheels (random_digits rt) 0 = generateId (random_digits rt 4)"
      using taken by (intro allocate_exhausted) simp_all
    moreover from taken have "wheels (generateId (random_digits rt 4)) \<noteq> None"
      by simp
    ultimately show ?thesis by (auto simp: post_wheels_eq run)
  qed
  have found: "handleApi rt (post_wheels payload) wheels
      = (created (generateId (random_digits rt k)),
         wheels(generateId (random_digits rt k) \<mapsto>
           new_wheel (generateId (random_digits rt k)) opts))"
    if "k < 5" and "wheels (generateId (random_digits rt k)) = None"
      and "\<forall>j<k. wheels (generateId (random_digits rt j)) \<noteq> None" for k
  proof -
    have "allocate wheels (random_digits rt) 0 = generateId (random_digits rt k)"
      using that by (intro allocate_first_free) simp_all
    with that(2) show ?thesis by (simp add: post_wheels_eq run)
  qed
  have independent: "handleApi (rt\<lparr>random_digits := draws\<rparr>) (post_wheels payload) wheels
      = handleApi rt (post_wheels payload) wheels"
    if "\<forall>k<5. draws k = random_digits rt k"
  proof -
    have same: "allocate wheels draws 0 = allocate wheels (random_digits rt) 0"
      using that by (intro allocate_cong) simp_all
    have "sanitise (rt\<lparr>random_digits := draws\<rparr>) es [] = Inr opts"
      using assms(4) by (simp add: sanitise_draws)
    from create_wheel_accepted [OF assms(1-3) this, of wheels] same show ?thesis
      by (simp add: post_wheels_eq run)
  qed
  from exhausted found independent show ?thesis by blast
qed

theorem allocation_at_most_five_witness:
  "handleApi example_runtime (post_wheels (submitted [(''Prize'', 1)])) example_registry
     = (Respond 500 (ErrorBody ''Could not allocate id''), example_registry)
   \<and> handleApi retry_runtime (post_wheels (submitted [(''Prize'', 1)])) example_registry
     = (created ''def'', example_registry(''def'' \<mapsto> new_wheel ''def'' [\<lparr>label = ''Prize'', weight = 1\<rparr>]))
   \<and> handleApi (retry_runtime\<lparr>random_digits := (\<lambda>k. if k < 2 then [10, 11, 12] else if k < 5 then [13, 14, 15] else [])\<rparr>)
         (post_wheels (submitted [(''Prize'', 1)])) example_registry
     = handleApi retry_runtime (post_wheels (submitted [(''Prize'', 1)])) example_registry"
proof -
  let ?raw = "[(''Prize'', 1)] :: (string \<times> real) list"
  let ?opts = "[\<lparr>label = ''Prize'', weight = 1\<rparr>] :: wheel_option list"
  have h1: "truthy (submitted ?raw)" by (simp add: submitted_def)
  have h2: "get_prop (submitted ?raw) ''options'' = Some (JArr (map entry ?raw))"
    by (simp add: submitted_def)
  have h3: "map entry ?raw \<noteq> []" by simp
  have h4: "sanitise rt (map entry ?raw) [] = Inr ?opts" for rt
    unfolding sanitise_entries
    by (simp add: valid_entry_def stored_option_def trim_def is_space_def)
  have taken: "\<forall>k<5. example_registry (generateId (random_digits example_runtime k)) \<noteq> None"
    by (simp add: example_runtime_def example_registry_def generateId_example)
  have first: "handleApi example_runtime (post_wheels (submitted ?raw)) example_registry
     = (Respond 500 (ErrorBody ''Could not allocate id''), example_registry)"
    using allocation_at_most_five [OF h1 h2 h3 h4, where wheels = example_registry
        and rt = example_runtime] taken by blast
  have k2: "(2::nat) < 5" by simp
  have free: "example_registry (generateId (random_digits retry_runtime 2)) = None
      \<and> (\<forall>j<2. example_registry (generateId (random_digits retry_runtime j)) \<noteq> None)"
    by (simp add: retry_runtime_def example_registry_def generateId_example)
  have "handleApi retry_runtime (post_wheels (submitted ?raw)) example_registry
     = (created (generateId (random_digits retry_runtime 2)),
        example_registry(generateId (random_digits retry_runtime 2) \<mapsto>
          new_wheel (generateId (random_digits retry_runtime 2)) ?opts))"
    using allocation_at_most_five [OF h1 h2 h3 h4, where wheels = example_registry
        and rt = retry_runtime] k2 free by blast
  moreover have "generateId (random_digits retry_runtime 2) = ''def''"
    by (simp add: retry_runtime_def generateId_example)
  ultimately have second: "handleApi retry_runtime (post_wheels (submitted ?raw)) example_registry
     = (created ''def'', example_registry(''def'' \<mapsto> new_wheel ''def'' ?opts))"
    by simp
  let ?draws = "\<lambda>k::nat. if k < 2 then [10, 11, 12] else if k < 5 then [13, 14, 15] else ([]::nat list)"
  have same: "\<forall>k<5. ?draws k = random_digits retry_runtime k"
    by (simp add: retry_runtime_def)
  have third: "handleApi (retry_runtime\<lparr>random_digits := ?draws\<rparr>) (post_wheels (submitted ?raw)) example_registry
     = handleApi retry_runtime (post_wheels (submitted ?raw)) example_registry"
    using allocation_at_most_five [OF h1 h2 h3 h4, where wheels = example_registry
        and rt = retry_runtime and draws = ?draws] same by blast
  show ?thesis by (rule conjI [OF first conjI [OF second third]])
qed

text \<open>
  Claim C10.  A create request whose two entries have the labels \<^verbatim>\<open>"A"\<close> and \<^verbatim>\<open>" A "\<close>,
  equal after trimming, is accepted, and both options are stored.  The two stored options
  differ, each of them is selected by some draw, and both selections report the label A.
\<close>

theorem duplicate_labels_accepted:
  "handleApi example_runtime (create_request [(''A'', 1), ('' A '', 2)]) Map.empty
     = (created ''abc'',
        [''abc'' \<mapsto> new_wheel ''abc'' [\<lparr>label = ''A'', weight = 1\<rparr>, \<lparr>label = ''A'', weight = 2\<rparr>]])
   \<and> \<lparr>label = ''A'', weight = 1\<rparr> \<noteq> \<lparr>label = ''A'', weight = (2::real)\<rparr>
   \<and> select_option (Fin (1 / 2)) [\<lparr>label = ''A'', weight = 1\<rparr>, \<lparr>label = ''A'', weight = 2\<rparr>]
       = Some \<lparr>label = ''A'', weight = 1\<rparr>
   \<and> select_option (Fin 2) [\<lparr>label = ''A'', weight = 1\<rparr>, \<lparr>label = ''A'', weight = 2\<rparr>]
       = Some \<lparr>label = ''A'', weight = 2\<rparr>"
proof -
  let ?raw = "[(''A'', 1), ('' A '', 2)] :: (string \<times> real) list"
  have nonempty: "?raw \<noteq> []" by simp
  have valid: "list_all valid_entry ?raw"
    by (simp add: valid_entry_def trim_def is_space_def)
  have stored: "map stored_option ?raw = [\<lparr>label = ''A'', weight = 1\<rparr>, \<lparr>label = ''A'', weight = 2\<rparr>]"
    by (simp add: stored_option_def trim_def is_space_def)
  have ident: "allocate Map.empty (random_digits example_runtime) 0 = ''abc''"
    using allocate_first_free [of 0 0 Map.empty "random_digits example_runtime"]
    by (simp add: example_runtime_def generateId_example)
  have "handleApi example_runtime (create_request ?raw) Map.empty
     = (created ''abc'',
        [''abc'' \<mapsto> new_wheel ''abc'' [\<lparr>label = ''A'', weight = 1\<rparr>, \<lparr>label = ''A'', weight = 2\<rparr>]])"
    unfolding create_request_eq create_wheel_submitted [OF nonempty valid] ident stored by simp
  then show ?thesis
    using to_double_values by (simp add: select_option_def)
qed

text \<open>
  Claim C4 says that a create request with an invalid entry is answered with the 400
  validation error.  The validation loop reads \<^verbatim>\<open>opt.label\<close> before any test, so an
  entry \<^verbatim>\<open>null\<close> in front of an entry with an empty label makes the loop throw a
  TypeError instead; so does a weight that is an object with a \<^verbatim>\<open>toString\<close> property of
  its own, for which \<^verbatim>\<open>Number\<close> throws.  No response is sent.  (The test of the payload
  itself, \<^verbatim>\<open>!payload\<close>, does guard against \<^verbatim>\<open>null\<close>.)
\<close>

theorem null_entry_uncaught:
  "handleApi example_runtime
     \<lparr>http_method = ''POST'', pathname = ''/api/wheels'',
      parsed_body = Some (JObj [(''options'', JArr [JNull, entry ('''', 1)])])\<rparr> Map.empty
   = (Uncaught, Map.empty)
 \<and> handleApi example_runtime
     \<lparr>http_method = ''POST'', pathname = ''/api/wheels'',
      parsed_body = Some (JObj [(''options'', JArr [JObj [(''label'', JStr ''a''), (''weight'', JObj [(''toString'', JNum (Fin 1))])]])])\<rparr> Map.empty
   = (Uncaught, Map.empty)"
  by (simp add: handleApi_create create_wheel_def)

text \<open>
  On bodies whose entries are objects with a string label and a numeric weight, one
  invalid entry rejects the whole request with 400, and the registry is unchanged.
\<close>

lemma invalid_typed_entry_rejected:
  assumes "raw \<noteq> []" and "\<not> list_all valid_entry raw"
  shows "handleApi rt (create_request raw) wheels = (invalid_option, wheels)"
  using assms by (simp add: create_request_eq create_wheel_def submitted_def sanitise_entries)

lemma invalid_typed_entry_rejected_witness:
  "handleApi example_runtime (create_request [(''Prize'', 1), (''  '', 1)]) example_registry
     = (invalid_option, example_registry)
   \<and> handleApi example_runtime (create_request [(''Prize'', 1), (''Nothing'', 0)]) example_registry
     = (invalid_option, example_registry)"
  using invalid_typed_entry_rejected [of "[(''Prize'', 1), (''  '', 1)]" example_runtime example_registry]
    invalid_typed_entry_rejected [of "[(''Prize'', 1), (''Nothing'', 0)]" example_runtime example_registry]
  by (simp add: valid_entry_def trim_def is_space_def)

subsection \<open>Spinning\<close>

lemma trimmed_string_nonempty: "trimmed_string v \<noteq> [] \<Longrightarrow> \<exists>s. v = JStr s \<and> trimmed_string v = trim s"
  by (cases v) simp_all

lemma spin_request_eq:
  "route_id i \<Longrightarrow> handleApi rt (spin_request i b) wheels = record_spin rt i b wheels"
  unfolding spin_request_def by (rule handleApi_spin)

lemma record_spin_success:
  assumes "wheels i = Some w"
    and "record_spin rt i b wheels = (Respond 200 reply, wheels')"
  shows "\<exists>payload n p chosen. b = Some payload
       \<and> get_prop payload ''name'' = Some (JStr n) \<and> get_prop payload ''phone'' = Some (JStr p)
       \<and> chosen \<in> set (options w) \<and> reply = SpinBody (label chosen)
       \<and> wheels' = wheels(i \<mapsto> w\<lparr>results := results w @
            [\<lparr>name = trim n, phone = trim p, result = label chosen, timestamp = Date_now rt\<rparr>]\<rparr>)"
proof -
  have own: "wheels_get wheels i = Own w"
    using assms(1) by (rule wheels_get_Own)
  from assms(2) obtain payload where b: "b = Some payload"
    by (cases b) (simp_all add: record_spin_def own)
  from assms(2) obtain nv where nv: "get_prop payload ''name'' = Some nv"
    by (cases "get_prop payload ''name''") (simp_all add: record_spin_def own b)
  from assms(2) obtain pv where pv: "get_prop payload ''phone'' = Some pv"
    by (cases "get_prop payload ''phone''") (simp_all add: record_spin_def own b nv)
  have filled: "trimmed_string nv \<noteq> []" "trimmed_string pv \<noteq> []"
    using assms(2) by (auto simp: record_spin_def own b nv pv name_and_phone_required_def split: if_splits)
  then obtain n p where n: "nv = JStr n" "trimmed_string nv = trim n"
    and p: "pv = JStr p" "trimmed_string pv = trim p"
    using trimmed_string_nonempty by blast
  let ?r = "js_mul (Fin (Math_random rt)) (totalWeight (options w))"
  from assms(2) filled obtain chosen where chosen: "select_option ?r (options w) = Some chosen"
    by (cases "select_option ?r (options w)") (simp_all add: record_spin_def own b nv pv)
  have "reply = SpinBody (label chosen)"
    and "wheels' = wheels(i \<mapsto> w\<lparr>results := results w @
            [\<lparr>name = trim n, phone = trim p, result = label chosen, timestamp = Date_now rt\<rparr>]\<rparr>)"
    using assms(2) filled chosen
    by (simp_all add: record_spin_def own b nv pv n(2) p(2))
  with b nv pv n(1) p(1) select_option_in_set [OF chosen] show ?thesis by blast
qed

text \<open>
  A spin for a stored wheel with an option, with a name and a phone that are strings and
  not empty after trimming, is answered with 200 and the label of the option that the
  selection returns for the scaled draw \<^verbatim>\<open>Math.random() * totalWeight\<close>.
\<close>

lemma spin_succeeds:
  assumes "route_id i" and "wheels i = Some w" and "options w \<noteq> []"
    and "get_prop payload ''name'' = Some (JStr n)" and "get_prop payload ''phone'' = Some (JStr p)"
    and "trim n \<noteq> []" and "trim p \<noteq> []"
  shows "\<exists>chosen. select_option (js_mul (Fin (Math_random rt)) (totalWeight (options w))) (options w)
          = Some chosen
      \<and> chosen \<in> set (options w)
      \<and> handleApi rt (spin_request i (Some payload)) wheels
        = (Respond 200 (SpinBody (label chosen)),
           wheels(i \<mapsto> w\<lparr>results := results w @
             [\<lparr>name = trim n, phone = trim p, result = label chosen, timestamp = Date_now rt\<rparr>]\<rparr>))"
proof -
  let ?r = "js_mul (Fin (Math_random rt)) (totalWeight (options w))"
  from select_option_some [OF assms(3), of ?r]
  obtain chosen where chosen: "select_option ?r (options w) = Some chosen" by blast
  then have member: "chosen \<in> set (options w)" by (rule select_option_in_set)
  have own: "wheels_get wheels i = Own w"
    using assms(2) by (rule wheels_get_Own)
  have "record_spin rt i (Some payload) wheels
        = (Respond 200 (SpinBody (label chosen)),
           wheels(i \<mapsto> w\<lparr>results := results w @
             [\<lparr>name = trim n, phone = trim p, result = label chosen, timestamp = Date_now rt\<rparr>]\<rparr>))"
    using assms(6,7) by (simp add: record_spin_def own assms(4,5) chosen)
  with chosen member show ?thesis
    unfolding spin_request_eq [OF assms(1)] by blast
qed

lemma participant_props:
  "get_prop (participant n p) ''name'' = Some (JStr n)"
  "get_prop (participant n p) ''phone'' = Some (JStr p)"
  by (simp_all add: participant_def)

text \<open>
  Claim C7.  Take a wheel \<open>w\<close> stored under an id \<open>i\<close> that a route can capture.  A spin
  request whose body has strings as name and phone, both not empty after trimming, is
  answered, when \<open>w\<close> has an option, with 200 and the label of one of the options of \<open>w\<close>,
  and the registry afterwards is the old one with \<open>i\<close> bound to \<open>w\<close> with exactly one
  result appended: the trimmed name and phone, the label of the reply, and the time of
  the clock.  And every spin request for \<open>i\<close> that is answered with 200 is of this kind:
  its body is an object whose name and phone are strings, the reply names the label of
  one of the options of \<open>w\<close>, and the registry afterwards is the old one with that one
  result appended to \<open>w\<close>.  Every other key is bound as before.
\<close>

theorem spin_appends_one_result:
  assumes "route_id i" and "wheels i = Some w"
  shows "(options w \<noteq> [] \<and> get_prop payload ''name'' = Some (JStr n)
            \<and> get_prop payload ''phone'' = Some (JStr p) \<and> trim n \<noteq> [] \<and> trim p \<noteq> []
          \<longrightarrow> (\<exists>chosen\<in>set (options w).
                 handleApi rt (spin_request i (Some payload)) wheels
                   = (Respond 200 (SpinBody (label chosen)),
                      wheels(i \<mapsto> w\<lparr>results := results w @
                        [\<lparr>name = trim n, phone = trim p, result = label chosen,
                          timestamp = Date_now rt\<rparr>]\<rparr>))))
       \<and> (handleApi rt (spin_request i b) wheels = (Respond 200 reply, wheels')
          \<longrightarrow> (\<exists>payload' n' p' chosen. b = Some payload'
                 \<and> get_prop payload' ''name'' = Some (JStr n')
                 \<and> get_prop payload' ''phone'' = Some (JStr p')
                 \<and> chosen \<in> set (options w) \<and> reply = SpinBody (label chosen)
                 \<and> wheels' = wheels(i \<mapsto> w\<lparr>results := results w @
                      [\<lparr>name = trim n', phone = trim p', result = label chosen,
                        timestamp = Date_now rt\<rparr>]\<rparr>)))"
proof (intro conjI impI)
  assume "options w \<noteq> [] \<and> get_prop payload ''name'' = Some (JStr n)
      \<and> get_prop payload ''phone'' = Some (JStr p) \<and> trim n \<noteq> [] \<and> trim p \<noteq> []"
  then have h: "options w \<noteq> []" "get_prop payload ''name'' = Some (JStr n)"
    "get_prop payload ''phone'' = Some (JStr p)" "trim n \<noteq> []" "trim p \<noteq> []"
    by simp_all
  from spin_succeeds [where wheels = wheels and rt = rt, OF assms h]
  show "\<exists>chosen\<in>set (options w).
      handleApi rt (spin_request i (Some payload)) wheels
        = (Respond 200 (SpinBody (label chosen)),
           wheels(i \<mapsto> w\<lparr>results := results w @
             [\<lparr>name = trim n, phone = trim p, result = label chosen, timestamp = Date_now rt\<rparr>]\<rparr>))"
    by blast
next
  assume "handleApi rt (spin_request i b) wheels = (Respond 200 reply, wheels')"
  then have "record_spin rt i b wheels = (Respond 200 reply, wheels')"
    by (simp add: spin_request_eq [OF assms(1)])
  with assms(2) show "\<exists>payload' n' p' chosen. b = Some payload'
       \<and> get_prop payload' ''name'' = Some (JStr n')
       \<and> get_prop payload' ''phone'' = Some (JStr p')
       \<and> chosen \<in> set (options w) \<and> reply = SpinBody (label chosen)
       \<and> wheels' = wheels(i \<mapsto> w\<lparr>results := results w @
            [\<lparr>name = trim n', phone = trim p', result = label chosen, timestamp = Date_now rt\<rparr>]\<rparr>)"
    by (rule record_spin_success)
qed

lemma route_id_abc: "route_id ''abc''"
  by (simp add: route_id_def id_char_def)

lemma example_draw:
  "js_mul (Fin (Math_random example_runtime)) (totalWeight example_options) = Fin 2"
  using to_double_values by (simp add: example_runtime_def example_sums)

lemma example_selection:
  "select_option (Fin 2) example_options = Some \<lparr>label = ''B'', weight = 3\<rparr>"
  using to_double_values by (simp add: select_option_def example_options_def)

lemma example_spin:
  "handleApi example_runtime (spin_request ''abc'' (Some (participant '' Ann'' ''555-1 ''))) fresh_registry
     = (Respond 200 (SpinBody ''B''), example_registry)"
proof -
  have stored: "fresh_registry ''abc'' = Some \<lparr>wheel_id = ''abc'', options = example_options, results = []\<rparr>"
    by (simp add: fresh_registry_def)
  have opts: "options \<lparr>wheel_id = ''abc'', options = example_options, results = []\<rparr> \<noteq> []"
    by (simp add: example_options_def)
  have trimmed: "trim '' Ann'' = ''Ann''" "trim ''555-1 '' = ''555-1''"
    by (simp_all add: trim_def is_space_def)
  have filled: "trim '' Ann'' \<noteq> []" "trim ''555-1 '' \<noteq> []"
    unfolding trimmed by simp_all
  from spin_succeeds [where wheels = fresh_registry and rt = example_runtime
      and n = "'' Ann''" and p = "''555-1 ''", OF route_id_abc stored opts participant_props filled]
  have "handleApi example_runtime (spin_request ''abc'' (Some (participant '' Ann'' ''555-1 ''))) fresh_registry
      = (Respond 200 (SpinBody ''B''),
         fresh_registry(''abc'' \<mapsto> \<lparr>wheel_id = ''abc'', options = example_options,
           results = [\<lparr>name = ''Ann'', phone = ''555-1'', result = ''B'',
             timestamp = Date_now example_runtime\<rparr>]\<rparr>))"
    by (auto simp: example_draw example_selection trimmed)
  moreover have "fresh_registry(''abc'' \<mapsto> \<lparr>wheel_id = ''abc'', options = example_options,
           results = [\<lparr>name = ''Ann'', phone = ''555-1'', result = ''B'',
             timestamp = Date_now example_runtime\<rparr>]\<rparr>) = example_registry"
    by (simp add: fresh_registry_def example_registry_def example_runtime_def)
  ultimately show ?thesis by simp
qed

theorem spin_appends_one_result_witness:
  "handleApi example_runtime (spin_request ''abc'' (Some (participant '' Ann'' ''555-1 ''))) fresh_registry
     = (Respond 200 (SpinBody ''B''), example_registry)
   \<and> (\<exists>chosen\<in>set example_options.
        handleApi example_runtime (spin_request ''abc'' (Some (participant '' Ann'' ''555-1 ''))) fresh_registry
          = (Respond 200 (SpinBody (label chosen)),
             fresh_registry(''abc'' \<mapsto>
               \<lparr>wheel_id = ''abc'', options = example_options, results = [] @
                 [\<lparr>name = trim '' Ann'', phone = trim ''555-1 '', result = label chosen,
                   timestamp = Date_now example_runtime\<rparr>]\<rparr>)))
   \<and> (\<exists>payload n p chosen. Some (participant '' Ann'' ''555-1 '') = Some payload
       \<and> get_prop payload ''name'' = Some (JStr n) \<and> get_prop payload ''phone'' = Some (JStr p)
       \<and> chosen \<in> set example_options \<and> SpinBody ''B'' = SpinBody (label chosen)
       \<and> example_registry = fresh_registry(''abc'' \<mapsto>
            \<lparr>wheel_id = ''abc'', options = example_options, results = [] @
              [\<lparr>name = trim n, phone = trim p, result = label chosen,
                timestamp = Date_now example_runtime\<rparr>]\<rparr>))"
proof -
  let ?w = "\<lparr>wheel_id = ''abc'', options = example_options, results = []\<rparr>"
  have h1: "fresh_registry ''abc'' = Some ?w"
    by (simp add: fresh_registry_def)
  have h2: "options ?w \<noteq> [] \<and> get_prop (participant '' Ann'' ''555-1 '') ''name'' = Some (JStr '' Ann'')
      \<and> get_prop (participant '' Ann'' ''555-1 '') ''phone'' = Some (JStr ''555-1 '')
      \<and> trim '' Ann'' \<noteq> [] \<and> trim ''555-1 '' \<noteq> []"
    by (simp add: example_options_def participant_def trim_def is_space_def)
  note all = spin_appends_one_result [where wheels = fresh_registry
        and rt = example_runtime and payload = "participant '' Ann'' ''555-1 ''"
        and n = "'' Ann''" and p = "''555-1 ''"
        and b = "Some (participant '' Ann'' ''555-1 '')"
        and reply = "SpinBody ''B''" and wheels' = example_registry, OF route_id_abc h1]
  from mp [OF conjunct1 [OF all] h2]
  have run: "\<exists>chosen\<in>set example_options.
        handleApi example_runtime (spin_request ''abc'' (Some (participant '' Ann'' ''555-1 ''))) fresh_registry
          = (Respond 200 (SpinBody (label chosen)),
             fresh_registry(''abc'' \<mapsto>
               \<lparr>wheel_id = ''abc'', options = example_options, results = [] @
                 [\<lparr>name = trim '' Ann'', phone = trim ''555-1 '', result = label chosen,
                   timestamp = Date_now example_runtime\<rparr>]\<rparr>))"
    by simp
  from mp [OF conjunct2 [OF all] example_spin]
  have form: "\<exists>payload n p chosen. Some (participant '' Ann'' ''555-1 '') = Some payload
       \<and> get_prop payload ''name'' = Some (JStr n) \<and> get_prop payload ''phone'' = Some (JStr p)
       \<and> chosen \<in> set example_options \<and> SpinBody ''B'' = SpinBody (label chosen)
       \<and> example_registry = fresh_registry(''abc'' \<mapsto>
            \<lparr>wheel_id = ''abc'', options = example_options, results = [] @
              [\<lparr>name = trim n, phone = trim p, result = label chosen,
                timestamp = Date_now example_runtime\<rparr>]\<rparr>)"
    by simp
  show ?thesis by (rule conjI [OF example_spin conjI [OF run form]])
qed

text \<open>
  Claim C2 as stated fails.  The options A and B, each of weight \<open>2 ^ 1023\<close>, are stored
  by a create request.  Their sum is beyond the largest double, so \<^verbatim>\<open>totalWeight\<close> is
  \<^verbatim>\<open>Infinity\<close>, and with the draw one half so is \<open>r\<close>.  No cumulative sum is above \<open>r\<close>:
  the walk falls through, and the spin answers A, the first option, not B, the last one.
  \<^verbatim>\<open>chosen\<close> starts as \<^verbatim>\<open>wheel.options[0]\<close> and a loop that never breaks leaves it alone.
\<close>

theorem fall_through_selects_last_counterexample:
  "handleApi example_runtime (create_request [(''A'', 2 ^ 1023), (''B'', 2 ^ 1023)]) Map.empty
     = (created ''abc'', overflow_registry)
   \<and> js_mul (Fin (Math_random example_runtime)) (totalWeight overflow_options) = PosInfinity
   \<and> walk PosInfinity (Fin 0) overflow_options = None
   \<and> handleApi example_runtime (spin_request ''abc'' (Some (participant ''Ann'' ''555-1''))) overflow_registry
       = (Respond 200 (SpinBody ''A''),
          overflow_registry(''abc'' \<mapsto> \<lparr>wheel_id = ''abc'', options = overflow_options,
            results = [\<lparr>name = ''Ann'', phone = ''555-1'', result = ''A'',
              timestamp = 1700000000000\<rparr>]\<rparr>))
   \<and> label (last overflow_options) = ''B''"
proof -
  let ?raw = "[(''A'', 2 ^ 1023), (''B'', 2 ^ 1023)] :: (string \<times> real) list"
  have nonempty: "?raw \<noteq> []" by simp
  have valid: "list_all valid_entry ?raw"
    by (simp add: valid_entry_def trim_def is_space_def)
  have stored_opts: "map stored_option ?raw = overflow_options"
    by (simp add: stored_option_def overflow_options_def trim_def is_space_def)
  have ident: "allocate Map.empty (random_digits example_runtime) 0 = ''abc''"
    using allocate_first_free [of 0 0 Map.empty "random_digits example_runtime"]
    by (simp add: example_runtime_def generateId_example)
  have create: "handleApi example_runtime (create_request ?raw) Map.empty
      = (created ''abc'', overflow_registry)"
    unfolding create_request_eq create_wheel_submitted [OF nonempty valid] ident stored_opts
    by (simp add: overflow_registry_def new_wheel_def)
  have draw: "js_mul (Fin (Math_random example_runtime)) (totalWeight overflow_options) = PosInfinity"
    by (simp add: overflow_sums example_runtime_def)
  have none: "walk PosInfinity (Fin 0) overflow_options = None"
    using to_double_1023 by (simp add: overflow_options_def)
  have sel: "select_option PosInfinity overflow_options = Some (hd overflow_options)"
    using none by (simp add: select_option_fallback overflow_options_def)
  have stored: "overflow_registry ''abc'' = Some \<lparr>wheel_id = ''abc'', options = overflow_options, results = []\<rparr>"
    by (simp add: overflow_registry_def)
  have opts: "options \<lparr>wheel_id = ''abc'', options = overflow_options, results = []\<rparr> \<noteq> []"
    by (simp add: overflow_options_def)
  have trimmed: "trim ''Ann'' = ''Ann''" "trim ''555-1'' = ''555-1''"
    by (simp_all add: trim_def is_space_def)
  have filled: "trim ''Ann'' \<noteq> []" "trim ''555-1'' \<noteq> []"
    unfolding trimmed by simp_all
  have first: "label (hd overflow_options) = ''A''"
    by (simp add: overflow_options_def)
  have clock: "Date_now example_runtime = 1700000000000"
    by (simp add: example_runtime_def)
  from spin_succeeds [where wheels = overflow_registry and rt = example_runtime
      and n = "''Ann''" and p = "''555-1''", OF route_id_abc stored opts participant_props filled]
  have spin: "handleApi example_runtime (spin_request ''abc'' (Some (participant ''Ann'' ''555-1''))) overflow_registry
       = (Respond 200 (SpinBody ''A''),
          overflow_registry(''abc'' \<mapsto> \<lparr>wheel_id = ''abc'', options = overflow_options,
            results = [\<lparr>name = ''Ann'', phone = ''555-1'', result = ''A'',
              timestamp = 1700000000000\<rparr>]\<rparr>))"
    by (auto simp: draw sel trimmed first clock)
  have final: "label (last overflow_options) = ''B''"
    by (simp add: overflow_options_def)
  show ?thesis by (rule conjI [OF create conjI [OF draw conjI [OF none conjI [OF spin final]]]])
qed

text \<open>
  The spin that the handler runs for the options A (weight \<open>2 ^ 53\<close>), B (weight 1) and
  C (weight 2) with the largest draw: the scaled draw is \<open>2 ^ 53\<close> and the answer is C.
\<close>

lemma absorbed_spin:
  "handleApi last_runtime (spin_request ''abc'' (Some (participant ''Ann'' ''555-1''))) absorbed_registry
     = (Respond 200 (SpinBody ''C''),
        absorbed_registry(''abc'' \<mapsto> \<lparr>wheel_id = ''abc'', options = absorbed_options,
          results = [\<lparr>name = ''Ann'', phone = ''555-1'', result = ''C'',
            timestamp = 1700000000000\<rparr>]\<rparr>))"
proof -
  have draw: "js_mul (Fin (Math_random last_runtime)) (totalWeight absorbed_options) = Fin (2 ^ 53)"
    using to_double_53(5) by (simp add: absorbed_sums last_draw_def last_runtime_def)
  have sel: "select_option (Fin (2 ^ 53)) absorbed_options = Some \<lparr>label = ''C'', weight = 2\<rparr>"
    using to_double_53 by (simp add: select_option_def absorbed_options_def)
  have stored: "absorbed_registry ''abc'' = Some \<lparr>wheel_id = ''abc'', options = absorbed_options, results = []\<rparr>"
    by (simp add: absorbed_registry_def)
  have opts: "options \<lparr>wheel_id = ''abc'', options = absorbed_options, results = []\<rparr> \<noteq> []"
    by (simp add: absorbed_options_def)
  have trimmed: "trim ''Ann'' = ''Ann''" "trim ''555-1'' = ''555-1''"
    by (simp_all add: trim_def is_space_def)
  have filled: "trim ''Ann'' \<noteq> []" "trim ''555-1'' \<noteq> []"
    unfolding trimmed by simp_all
  have clock: "Date_now last_runtime = 1700000000000"
    by (simp add: last_runtime_def example_runtime_def)
  from spin_succeeds [where wheels = absorbed_registry and rt = last_runtime
      and n = "''Ann''" and p = "''555-1''", OF route_id_abc stored opts participant_props filled]
  obtain chosen where
    chosen: "select_option (js_mul (Fin (Math_random last_runtime)) (totalWeight absorbed_options))
        absorbed_options = Some chosen"
    and run: "handleApi last_runtime (spin_request ''abc'' (Some (participant ''Ann'' ''555-1''))) absorbed_registry
       = (Respond 200 (SpinBody (label chosen)),
          absorbed_registry(''abc'' \<mapsto> \<lparr>wheel_id = ''abc'', options = absorbed_options,
            results = [\<lparr>name = trim ''Ann'', phone = trim ''555-1'', result = label chosen,
              timestamp = Date_now last_runtime\<rparr>]\<rparr>))"
    by auto
  from chosen have "chosen = \<lparr>label = ''C'', weight = 2\<rparr>"
    unfolding draw sel by simp
  with run show ?thesis
    by (simp add: trimmed clock)
qed

subsection \<open>Spin errors, the results route, the registry invariant\<close>

lemma route_id_constructor: "route_id ''constructor''"
  by (simp add: route_id_def id_char_def)

text \<open>
  Claim C6 says that a spin for an id that is not in the registry is answered with 404.
  The id \<^verbatim>\<open>constructor\<close> is not a key of the empty registry, but \<^verbatim>\<open>wheels[id]\<close> finds
  the property inherited from \<^verbatim>\<open>Object.prototype\<close>, which is truthy: with a name and a
  phone the request goes on to \<^verbatim>\<open>wheel.options.reduce\<close> and throws a TypeError, and
  with an empty name it is answered with the 400 of the name test.  A spin for a stored
  wheel whose body is \<^verbatim>\<open>null\<close> throws as well, at \<^verbatim>\<open>payload.name\<close>.
\<close>

theorem spin_inherited_id_not_rejected:
  "handleApi example_runtime (spin_request ''constructor'' (Some (participant ''Ann'' ''555-1''))) Map.empty
     = (Uncaught, Map.empty)
   \<and> handleApi example_runtime (spin_request ''constructor'' (Some (participant '''' ''555-1''))) Map.empty
     = (name_and_phone_required, Map.empty)
   \<and> handleApi example_runtime (spin_request ''abc'' (Some JNull)) example_registry
     = (Uncaught, example_registry)"
proof -
  have inherited: "wheels_get Map.empty ''constructor'' = Inherited"
    by (simp add: wheels_get_def Object_prototype_def)
  have own: "wheels_get example_registry ''abc'' \<noteq> Missing"
    by (simp add: wheels_get_def example_registry_def)
  have trimmed: "trim ''Ann'' = ''Ann''" "trim ''555-1'' = ''555-1''" "trim '''' = ''''"
    by (simp_all add: trim_def is_space_def)
  show ?thesis
    unfolding spin_request_eq [OF route_id_constructor] spin_request_eq [OF route_id_abc]
    by (simp add: record_spin_def inherited own participant_def trimmed)
qed

text \<open>
  A spin for an id that is neither a key of the registry nor a property of
  \<^verbatim>\<open>Object.prototype\<close> is answered with 404, and the registry is unchanged.
\<close>

lemma spin_unknown_id:
  assumes "route_id i" and "wheels i = None" and "i \<notin> set Object_prototype"
  shows "handleApi rt (spin_request i b) wheels = (not_found, wheels)"
  using assms(2,3) unfolding spin_request_eq [OF assms(1)]
  by (simp add: record_spin_def wheels_get_def)

lemma spin_unknown_id_witness:
  "handleApi example_runtime (spin_request ''zzz'' (Some (participant ''Ann'' ''555-1''))) example_registry
     = (Respond 404 (ErrorBody ''Wheel not found''), example_registry)"
proof -
  have "route_id ''zzz''" by (simp add: route_id_def id_char_def)
  moreover have "example_registry ''zzz'' = None" by (simp add: example_registry_def)
  moreover have "''zzz'' \<notin> set Object_prototype" by (simp add: Object_prototype_def)
  ultimately show ?thesis
    using spin_unknown_id [of "''zzz''" example_registry example_runtime] by (simp add: not_found_def)
qed

text \<open>
  A spin for a stored wheel with a body other than \<^verbatim>\<open>null\<close> whose name or phone is
  missing, not a string, or empty after trimming is answered with 400, and the registry
  is unchanged.
\<close>

lemma spin_missing_name_or_phone:
  assumes "route_id i" and "wheels i = Some w"
    and "get_prop payload ''name'' = Some nv" and "get_prop payload ''phone'' = Some pv"
    and "trimmed_string nv = [] \<or> trimmed_string pv = []"
  shows "handleApi rt (spin_request i (Some payload)) wheels = (name_and_phone_required, wheels)"
  using assms(2-) unfolding spin_request_eq [OF assms(1)]
  by (auto simp: record_spin_def wheels_get_def)

lemma spin_missing_name_or_phone_witness:
  "handleApi example_runtime (spin_request ''abc'' (Some (participant ''  '' ''555-1''))) example_registry
     = (Respond 400 (ErrorBody ''Name and phone are required''), example_registry)
   \<and> handleApi example_runtime (spin_request ''abc'' (Some (JObj [(''name'', JStr ''Ann''), (''phone'', JNum (Fin 5551))]))) example_registry
     = (Respond 400 (ErrorBody ''Name and phone are required''), example_registry)"
proof -
  have w: "example_registry ''abc'' = Some \<lparr>wheel_id = ''abc'', options = example_options,
        results = [\<lparr>name = ''Ann'', phone = ''555-1'', result = ''B'', timestamp = 1700000000000\<rparr>]\<rparr>"
    by (simp add: example_registry_def)
  have a: "handleApi example_runtime (spin_request ''abc'' (Some (participant ''  '' ''555-1''))) example_registry
     = (name_and_phone_required, example_registry)"
    using spin_missing_name_or_phone [where i = "''abc''" and wheels = example_registry
        and payload = "participant ''  '' ''555-1''" and nv = "JStr ''  ''" and pv = "JStr ''555-1''"
        and rt = example_runtime] route_id_abc w
    by (simp add: participant_def trim_def is_space_def)
  have b: "handleApi example_runtime (spin_request ''abc'' (Some (JObj [(''name'', JStr ''Ann''), (''phone'', JNum (Fin 5551))]))) example_registry
     = (name_and_phone_required, example_registry)"
    using spin_missing_name_or_phone [where i = "''abc''" and wheels = example_registry
        and payload = "JObj [(''name'', JStr ''Ann''), (''phone'', JNum (Fin 5551))]"
        and nv = "JStr ''Ann''" and pv = "JNum (Fin 5551)" and rt = example_runtime] route_id_abc w
    by simp
  from a b show ?thesis by (simp add: name_and_phone_required_def)
qed

text \<open>
  Claim C1 says that \<^verbatim>\<open>GET /api/wheel/id/results\<close> returns the id and the results of
  the wheel.  The pattern of the route that reads a wheel has no anchor at its end and is
  tested first, so it matches this path as well: the request is answered with the id and
  the options.  The code that lists results, which would return them in insertion order,
  is never reached.
\<close>

theorem results_route_answers_with_options:
  "handleApi example_runtime (results_request ''abc'') example_registry
     = (Respond 200 (WheelBody ''abc'' example_options), example_registry)
   \<and> list_results example_registry ''abc''
     = Respond 200 (ResultsBody ''abc''
         [\<lparr>name = ''Ann'', phone = ''555-1'', result = ''B'', timestamp = 1700000000000\<rparr>])"
proof -
  have "handleApi example_runtime (results_request ''abc'') example_registry
      = (fetch_wheel example_registry ''abc'', example_registry)"
    unfolding results_request_def by (rule handleApi_results [OF route_id_abc])
  then show ?thesis
    by (simp add: fetch_wheel_def list_results_def wheels_get_def example_registry_def)
qed

lemma create_wheel_outcome:
  "create_wheel rt b wheels = (out, wheels') \<Longrightarrow>
   out = Uncaught \<or> (\<exists>st msg. out = Respond st (ErrorBody msg)) \<or> (\<exists>i l r. out = Respond 201 (CreatedBody i l r))"
  unfolding create_wheel_def Let_def options_required_def
  by (auto split: option.splits jsval.splits sum.splits if_splits
      dest!: sanitise_outcome simp: invalid_option_def)

lemma record_spin_outcome:
  "record_spin rt i b wheels = (out, wheels') \<Longrightarrow>
   out = Uncaught \<or> (\<exists>st msg. out = Respond st (ErrorBody msg)) \<or> (\<exists>l. out = Respond 200 (SpinBody l))"
  unfolding record_spin_def not_found_def name_and_phone_required_def
  by (auto split: option.splits property.splits if_splits)

lemma fetch_wheel_outcome:
  "fetch_wheel wheels i \<noteq> Respond st (ResultsBody k rs)"
  by (simp add: fetch_wheel_def not_found_def split: property.splits)

text \<open>
  No request at all is answered with a list of results.
\<close>

lemma results_never_listed:
  "handleApi rt req wheels \<noteq> (Respond st (ResultsBody k rs), wheels')"
proof
  assume run: "handleApi rt req wheels = (Respond st (ResultsBody k rs), wheels')"
  show False
  proof (cases "http_method req = ''POST'' \<and> pathname req = ''/api/wheels''")
    case True
    with run have "create_wheel rt (parsed_body req) wheels = (Respond st (ResultsBody k rs), wheels')"
      by (simp add: handleApi_def)
    from create_wheel_outcome [OF this] show False by auto
  next
    case False
    note not_create = this
    show False
    proof (cases "http_method req = ''GET''")
      case True
      show False
      proof (cases "match_route [] (pathname req)")
        case None
        then have "match_route ''/results'' (pathname req) = None"
          using match_route_shadow [of "''/results''" "pathname req"] by (cases "match_route ''/results'' (pathname req)") auto
        with run not_create True None show False
          by (simp add: handleApi_def)
      next
        case (Some i)
        with run not_create True show False
          by (simp add: handleApi_def fetch_wheel_outcome)
      qed
    next
      case False
      show False
      proof (cases "http_method req = ''POST'' \<and> match_route ''/spin'' (pathname req) \<noteq> None")
        case True
        then obtain i where "match_route ''/spin'' (pathname req) = Some i" by auto
        with run not_create False True
        have "record_spin rt i (parsed_body req) wheels = (Respond st (ResultsBody k rs), wheels')"
          by (simp add: handleApi_def)
        from record_spin_outcome [OF this] show False by auto
      next
        case no_spin: False
        with run not_create False show False
          by (auto simp: handleApi_def split: if_splits)
      qed
    qed
  qed
qed

text \<open>
  In a registry whose wheels carry their keys, no request at all is answered with the
  description of the wheel stored under the empty id.
\<close>

lemma empty_id_never_described:
  assumes "ids_match wheels"
  shows "handleApi rt req wheels \<noteq> (Respond st (WheelBody '''' opts), wheels')"
proof
  assume run: "handleApi rt req wheels = (Respond st (WheelBody '''' opts), wheels')"
  show False
  proof (cases "http_method req = ''POST'' \<and> pathname req = ''/api/wheels''")
    case True
    with run have "create_wheel rt (parsed_body req) wheels = (Respond st (WheelBody '''' opts), wheels')"
      by (simp add: handleApi_def)
    from create_wheel_outcome [OF this] show False by auto
  next
    case False
    note not_create = this
    show False
    proof (cases "http_method req = ''GET''")
      case True
      show False
      proof (cases "match_route [] (pathname req)")
        case None
        then have "match_route ''/results'' (pathname req) = None"
          using match_route_shadow [of "''/results''" "pathname req"]
          by (cases "match_route ''/results'' (pathname req)") auto
        with run not_create True None show False
          by (simp add: handleApi_def)
      next
        case (Some i)
        then have "route_id i" by (rule match_route_id)
        then have nonempty: "i \<noteq> []" by (simp add: route_id_def)
        from run not_create True Some
        have fetch: "fetch_wheel wheels i = Respond st (WheelBody '''' opts)"
          by (auto simp: handleApi_def)
        then obtain w where w: "wheels_get wheels i = Own w" "wheel_id w = ''''"
          by (cases "wheels_get wheels i") (simp_all add: fetch_wheel_def not_found_def)
        from w(1) have "wheels i = Some w" by (simp add: wheels_get_Own_iff)
        with assms have "wheel_id w = i" by (simp add: ids_match_def)
        with w(2) nonempty show False by simp
      qed
    next
      case False
      show False
      proof (cases "http_method req = ''POST'' \<and> match_route ''/spin'' (pathname req) \<noteq> None")
        case True
        then obtain i where "match_route ''/spin'' (pathname req) = Some i" by auto
        with run not_create False True
        have "record_spin rt i (parsed_body req) wheels = (Respond st (WheelBody '''' opts), wheels')"
          by (simp add: handleApi_def)
        from record_spin_outcome [OF this] show False by auto
      next
        case no_spin: False
        with run not_create False show False
          by (auto simp: handleApi_def split: if_splits)
      qed
    qed
  qed
qed

text \<open>
  The code that lists results, were it reached, would answer with the results in the
  order in which the spins appended them.
\<close>

lemma list_results_in_order:
  "(wheels i = Some w \<longrightarrow> list_results wheels i = Respond 200 (ResultsBody (wheel_id w) (results w)))
   \<and> (wheels i = None \<and> i \<notin> set Object_prototype \<longrightarrow> list_results wheels i = not_found)"
  by (simp add: list_results_def wheels_get_def)

lemma create_wheel_registry:
  "create_wheel rt b wheels = (out, wheels') \<Longrightarrow>
   wheels' = wheels \<or> (\<exists>i opts. wheels' = wheels(i \<mapsto> \<lparr>wheel_id = i, options = opts, results = []\<rparr>))"
  unfolding create_wheel_def Let_def
  by (auto split: option.splits jsval.splits sum.splits if_splits)

lemma record_spin_registry:
  "record_spin rt i b wheels = (out, wheels') \<Longrightarrow>
   wheels' = wheels \<or> (\<exists>w r. wheels i = Some w \<and> wheels' = wheels(i \<mapsto> w\<lparr>results := results w @ [r]\<rparr>))"
  unfolding record_spin_def
  by (auto split: option.splits property.splits if_splits simp: wheels_get_Own_iff)

lemma handleApi_cases:
  "handleApi rt req wheels = create_wheel rt (parsed_body req) wheels
   \<or> (\<exists>i. handleApi rt req wheels = (fetch_wheel wheels i, wheels))
   \<or> (\<exists>i. handleApi rt req wheels = (list_results wheels i, wheels))
   \<or> (\<exists>i. handleApi rt req wheels = record_spin rt i (parsed_body req) wheels)
   \<or> handleApi rt req wheels = (NotHandled, wheels)"
  by (auto simp: handleApi_def split: option.splits)

lemma handleApi_registry:
  "handleApi rt req wheels = (out, wheels') \<Longrightarrow>
   wheels' = wheels
   \<or> (\<exists>i opts. wheels' = wheels(i \<mapsto> \<lparr>wheel_id = i, options = opts, results = []\<rparr>))
   \<or> (\<exists>i w r. wheels i = Some w \<and> wheels' = wheels(i \<mapsto> w\<lparr>results := results w @ [r]\<rparr>))"
proof -
  assume run: "handleApi rt req wheels = (out, wheels')"
  from handleApi_cases [of rt req wheels] consider
      "handleApi rt req wheels = create_wheel rt (parsed_body req) wheels"
    | i where "handleApi rt req wheels = record_spin rt i (parsed_body req) wheels"
    | "snd (handleApi rt req wheels) = wheels"
    by auto
  then show ?thesis
  proof cases
    case 1
    with run have "create_wheel rt (parsed_body req) wheels = (out, wheels')" by simp
    from create_wheel_registry [OF this] show ?thesis by blast
  next
    case 2
    with run have "record_spin rt i (parsed_body req) wheels = (out, wheels')" by simp
    from record_spin_registry [OF this] show ?thesis by blast
  next
    case 3
    with run show ?thesis by simp
  qed
qed

lemma ids_match_update: "ids_match wheels \<Longrightarrow> wheel_id w = i \<Longrightarrow> ids_match (wheels(i \<mapsto> w))"
  by (simp add: ids_match_def)

text \<open>
  Claim C9.  In the empty registry every stored wheel carries the key it is stored under,
  and every request (whatever its method, path and body, and whatever the runtime
  supplies) leads from a registry with this property to one with it.
\<close>

theorem ids_match_invariant:
  "ids_match Map.empty \<and> (ids_match wheels \<longrightarrow> ids_match (snd (handleApi rt req wheels)))"
proof -
  have "ids_match (snd (handleApi rt req wheels))" if inv: "ids_match wheels"
  proof -
    obtain out wheels' where run: "handleApi rt req wheels = (out, wheels')"
      by (cases "handleApi rt req wheels")
    from handleApi_registry [OF run] consider "wheels' = wheels"
      | i opts where "wheels' = wheels(i \<mapsto> \<lparr>wheel_id = i, options = opts, results = []\<rparr>)"
      | i w r where "wheels i = Some w" "wheels' = wheels(i \<mapsto> w\<lparr>results := results w @ [r]\<rparr>)"
      by blast
    then have "ids_match wheels'"
    proof cases
      case 1
      with inv show ?thesis by simp
    next
      case 2
      with inv show ?thesis by (simp add: ids_match_update)
    next
      case 3
      from inv 3(1) have "wheel_id (w\<lparr>results := results w @ [r]\<rparr>) = i"
        by (simp add: ids_match_def)
      with inv 3(2) show ?thesis by (simp add: ids_match_update)
    qed
    with run show ?thesis by simp
  qed
  then have step: "ids_match wheels \<longrightarrow> ids_match (snd (handleApi rt req wheels))"
    by (rule impI)
  have "ids_match Map.empty"
    by (simp add: ids_match_def)
  then show ?thesis using step by (rule conjI)
qed

theorem ids_match_invariant_witness:
  "ids_match Map.empty
   \<and> ids_match (snd (handleApi example_runtime (create_request [(''Prize'', 1)]) Map.empty))
   \<and> snd (handleApi example_runtime (create_request [(''Prize'', 1)]) Map.empty) ''abc''
       = Some \<lparr>wheel_id = ''abc'', options = [\<lparr>label = ''Prize'', weight = 1\<rparr>], results = []\<rparr>"
proof -
  let ?raw = "[(''Prize'', 1)] :: (string \<times> real) list"
  note inv = ids_match_invariant [of Map.empty example_runtime "create_request ?raw"]
  from inv have empty: "ids_match Map.empty" by (rule conjunct1)
  from inv empty have after: "ids_match (snd (handleApi example_runtime (create_request ?raw) Map.empty))"
    by (rule mp [OF conjunct2])
  have nonempty: "?raw \<noteq> []" by simp
  have valid: "list_all valid_entry ?raw"
    by (simp add: valid_entry_def trim_def is_space_def)
  have stored: "map stored_option ?raw = [\<lparr>label = ''Prize'', weight = 1\<rparr>]"
    by (simp add: stored_option_def trim_def is_space_def)
  have ident: "allocate Map.empty (random_digits example_runtime) 0 = ''abc''"
    using allocate_first_free [of 0 0 Map.empty "random_digits example_runtime"]
    by (simp add: example_runtime_def generateId_example)
  have stored_wheel: "snd (handleApi example_runtime (create_request ?raw) Map.empty) ''abc''
       = Some \<lparr>wheel_id = ''abc'', options = [\<lparr>label = ''Prize'', weight = 1\<rparr>], results = []\<rparr>"
    unfolding create_request_eq create_wheel_submitted [OF nonempty valid] ident stored
    by (simp add: new_wheel_def)
  show ?thesis by (rule conjI [OF empty conjI [OF after stored_wheel]])
qed

subsection \<open>Stored wheels are well formed\<close>

lemma sanitise_valid:
  "sanitise rt es acc = Inr opts \<Longrightarrow> list_all valid_option acc \<Longrightarrow>
   list_all valid_option opts \<and> length opts = length acc + length es"
proof (induction es arbitrary: acc)
  case Nil
  then show ?case by simp
next
  case (Cons e es)
  from Cons.prems(1) obtain l w x where step:
      "get_prop e ''label'' = Some l" "get_prop e ''weight'' = Some w"
      "Number_js rt w = Some (Fin x)" "trimmed_string l \<noteq> []" "0 < x"
      "sanitise rt es (acc @ [\<lparr>label = trimmed_string l, weight = x\<rparr>]) = Inr opts"
    by (auto split: option.splits jsnum.splits if_splits)
  have "list_all valid_option (acc @ [\<lparr>label = trimmed_string l, weight = x\<rparr>])"
  proof -
    have "valid_option \<lparr>label = trimmed_string l, weight = x\<rparr>"
      using step(4,5) by (simp add: valid_option_def)
    with Cons.prems(2) show ?thesis by simp
  qed
  from Cons.IH [OF step(6) this] show ?case by simp
qed

lemma create_wheel_stores_valid:
  assumes "create_wheel rt b wheels = (out, wheels')"
  shows "wheels' = wheels
       \<or> (\<exists>i opts. wheels' = wheels(i \<mapsto> \<lparr>wheel_id = i, options = opts, results = []\<rparr>)
             \<and> opts \<noteq> [] \<and> list_all valid_option opts)"
proof (cases "wheels' = wheels")
  case True
  then show ?thesis by simp
next
  case False
  with assms obtain payload where b: "b = Some payload"
    by (cases b) (auto simp: create_wheel_def)
  from assms False b have t: "truthy payload"
    by (auto simp: create_wheel_def split: if_splits)
  from assms False b t obtain es where es: "get_prop payload ''options'' = Some (JArr es)" "es \<noteq> []"
    by (auto simp: create_wheel_def split: option.splits jsval.splits if_splits)
  from assms False b t es obtain opts where opts: "sanitise rt es [] = Inr opts"
    by (cases "sanitise rt es []") (auto simp: create_wheel_def)
  from sanitise_valid [OF opts] es(2) have ok: "opts \<noteq> []" "list_all valid_option opts"
    by auto
  from assms False b t es opts
  have "wheels' = wheels(allocate wheels (random_digits rt) 0 \<mapsto>
      \<lparr>wheel_id = allocate wheels (random_digits rt) 0, options = opts, results = []\<rparr>)"
    by (auto simp: create_wheel_def Let_def split: if_splits)
  with ok show ?thesis by blast
qed

lemma well_formed_update:
  "well_formed wheels \<Longrightarrow> options w \<noteq> [] \<Longrightarrow> list_all valid_option (options w) \<Longrightarrow>
   well_formed (wheels(i \<mapsto> w))"
  by (simp add: well_formed_def)

text \<open>
  Every wheel that a sequence of requests can store has at least one option, and each
  of its options has a non-empty label and a positive weight.
\<close>

lemma well_formed_invariant:
  "well_formed Map.empty \<and> (well_formed wheels \<longrightarrow> well_formed (snd (handleApi rt req wheels)))"
proof -
  have "well_formed (snd (handleApi rt req wheels))" if inv: "well_formed wheels"
  proof -
    obtain out wheels' where run: "handleApi rt req wheels = (out, wheels')"
      by (cases "handleApi rt req wheels")
    from handleApi_cases [of rt req wheels] consider
        "handleApi rt req wheels = create_wheel rt (parsed_body req) wheels"
      | i where "handleApi rt req wheels = record_spin rt i (parsed_body req) wheels"
      | "snd (handleApi rt req wheels) = wheels"
      by auto
    then have "well_formed wheels'"
    proof cases
      case 1
      with run have "create_wheel rt (parsed_body req) wheels = (out, wheels')" by simp
      from create_wheel_stores_valid [OF this] inv show ?thesis
        by (auto simp: well_formed_update)
    next
      case 2
      with run have "record_spin rt i (parsed_body req) wheels = (out, wheels')" by simp
      from record_spin_registry [OF this] consider "wheels' = wheels"
        | w r where "wheels i = Some w" "wheels' = wheels(i \<mapsto> w\<lparr>results := results w @ [r]\<rparr>)"
        by blast
      then show ?thesis
      proof cases
        case 1
        with inv show ?thesis by simp
      next
        case 2
        from inv 2(1) have "options w \<noteq> []" "list_all valid_option (options w)"
          by (simp_all add: well_formed_def)
        with inv 2(2) show ?thesis by (simp add: well_formed_update)
      qed
    next
      case 3
      with run inv show ?thesis by simp
    qed
    with run show ?thesis by simp
  qed
  then have step: "well_formed wheels \<longrightarrow> well_formed (snd (handleApi rt req wheels))"
    by (rule impI)
  have "well_formed Map.empty"
    by (simp add: well_formed_def)
  then show ?thesis using step by (rule conjI)
qed

end
